theory Spec2Isabelle
  imports Complex_Main
begin

section \<open>Text primitives\<close>

text \<open>
  JavaScript strings are modelled as \<^typ>\<open>string\<close>, read as ASCII text. The character
  classes below are the ASCII parts of the classes the source's regular expressions and
  string methods use: \<open>\s\<close> and \<open>trim\<close> (tab, line feed, vertical tab, form feed,
  carriage return, space), \<open>\d\<close>, \<open>[A-Za-z]\<close>, \<open>\w\<close>. Characters beyond ASCII
  (Unicode white space, accented letters and their case mappings) are not interpreted:
  the model treats them as plain symbols.
  Numbers (coordinates) are exact rationals; NaN and the infinities do not occur in a
  page's coordinates, and \<open>Infinity\<close> as a starting value is \<open>None\<close>.
\<close>

definition is_space :: "char \<Rightarrow> bool" where
  "is_space c \<longleftrightarrow> c \<in> set [CHR 0x09, CHR 0x0A, CHR 0x0B, CHR 0x0C, CHR 0x0D, CHR '' '']"

definition is_line_terminator :: "char \<Rightarrow> bool" where
  "is_line_terminator c \<longleftrightarrow> c \<in> set [CHR 0x0A, CHR 0x0D]"

definition is_digit :: "char \<Rightarrow> bool" where
  "is_digit c \<longleftrightarrow> c \<in> set ''0123456789''"

definition is_lower :: "char \<Rightarrow> bool" where
  "is_lower c \<longleftrightarrow> c \<in> set ''abcdefghijklmnopqrstuvwxyz''"

definition is_upper :: "char \<Rightarrow> bool" where
  "is_upper c \<longleftrightarrow> c \<in> set ''ABCDEFGHIJKLMNOPQRSTUVWXYZ''"

definition is_alpha :: "char \<Rightarrow> bool" where
  "is_alpha c \<longleftrightarrow> is_upper c \<or> is_lower c"

definition is_word :: "char \<Rightarrow> bool" where
  "is_word c \<longleftrightarrow> is_alpha c \<or> is_digit c \<or> c = CHR ''_''"

definition upper_char :: "char \<Rightarrow> char" where
  "upper_char c =
     (case map_of (zip ''abcdefghijklmnopqrstuvwxyz'' ''ABCDEFGHIJKLMNOPQRSTUVWXYZ'') c of
        Some u \<Rightarrow> u | None \<Rightarrow> c)"

definition lower_char :: "char \<Rightarrow> char" where
  "lower_char c =
     (case map_of (zip ''ABCDEFGHIJKLMNOPQRSTUVWXYZ'' ''abcdefghijklmnopqrstuvwxyz'') c of
        Some l \<Rightarrow> l | None \<Rightarrow> c)"

definition toUpperCase :: "string \<Rightarrow> string" where
  "toUpperCase s = map upper_char s"

definition toLowerCase :: "string \<Rightarrow> string" where
  "toLowerCase s = map lower_char s"

text \<open>\<open>s.trim()\<close>\<close>

definition trim :: "string \<Rightarrow> string" where
  "trim s = rev (dropWhile is_space (rev (dropWhile is_space s)))"

text \<open>\<open>s.replace(/\s+/g, " ")\<close>: every maximal run of white space becomes one space.\<close>

function collapse_ws :: "string \<Rightarrow> string" where
  "collapse_ws [] = []"
| "collapse_ws (c # cs) =
     (if is_space c then CHR '' '' # collapse_ws (dropWhile is_space cs)
      else c # collapse_ws cs)"
  by pat_completeness auto
termination
  by (relation "measure length") (auto simp: less_Suc_eq_le length_dropWhile_le)

text \<open>\<open>xs.join(" ")\<close>\<close>

fun join_sp :: "string list \<Rightarrow> string" where
  "join_sp [] = []"
| "join_sp [s] = s"
| "join_sp (s # t # ts) = s @ CHR '' '' # join_sp (t # ts)"

text \<open>\<open>s.startsWith(p)\<close> and \<open>s.includes(p)\<close>\<close>

fun startsWith :: "string \<Rightarrow> string \<Rightarrow> bool" where
  "startsWith s [] = True"
| "startsWith [] (p # ps) = False"
| "startsWith (c # cs) (p # ps) = (c = p \<and> startsWith cs ps)"

fun includes_str :: "string \<Rightarrow> string \<Rightarrow> bool" where
  "includes_str [] p = (p = [])"
| "includes_str (c # cs) p = (startsWith (c # cs) p \<or> includes_str cs p)"

text \<open>A prefix test that ignores the case of ASCII letters (a literal under the \<open>i\<close> flag).\<close>

definition startsWith_ci :: "string \<Rightarrow> string \<Rightarrow> bool" where
  "startsWith_ci s p = startsWith (toUpperCase s) (toUpperCase p)"

text \<open>
  \<open>Number(s)\<close> on a string of decimal digits: the value of a digit is its place in the
  row of digits.
\<close>

definition digit_val :: "char \<Rightarrow> nat" where
  "digit_val c = length (takeWhile (\<lambda>d. d \<noteq> c) ''0123456789'')"

definition Number_digits :: "string \<Rightarrow> nat" where
  "Number_digits s = foldl (\<lambda>n c. 10 * n + digit_val c) 0 s"

text \<open>\<open>/^\d{1,2}$/.test(s)\<close>\<close>

definition is_day_number :: "string \<Rightarrow> bool" where
  "is_day_number s \<longleftrightarrow> 1 \<le> length s \<and> length s \<le> 2 \<and> list_all is_digit s"

section \<open>Day classifier\<close>

datatype category = Working | Off | Absent

definition OFF_CODES :: "string list" where
  "OFF_CODES = [''FG'', ''FA'', ''FC'', ''FE'', ''FF'', ''FAN'', ''COVE'']"

definition ABSENT_CODES :: "string list" where
  "ABSENT_CODES = [''DM'', ''EMT'', ''AJ'', ''X'']"

text \<open>
  \<open>classify(code)\<close>. The argument is a string (\<open>code || ""\<close> is then \<open>code\<close> itself);
  \<open>!c\<close> holds for the empty string only.
\<close>

definition classify :: "string \<Rightarrow> category" where
  "classify code =
     (let c = toUpperCase (trim code) in
      if c = [] then Working
      else if c \<in> set OFF_CODES then Off
      else if c \<in> set ABSENT_CODES then Absent
      else Working)"

section \<open>Tokens, lines and the day header\<close>

record token =
  str :: string
  tok_x :: rat
  tok_y :: rat
  tok_w :: rat
  tok_h :: rat

text \<open>
  The items of a page: \<open>str\<close> trimmed, items with an empty \<open>str\<close> dropped
  (\<open>tc.items.map(...).filter(o => o.str.length)\<close>).
\<close>

definition page_items :: "token list \<Rightarrow> token list" where
  "page_items raw = filter (\<lambda>it. str it \<noteq> []) (map (\<lambda>it. it\<lparr>str := trim (str it)\<rparr>) raw)"

text \<open>
  \<open>groupByLine\<close>. A JavaScript \<open>Map\<close> iterates in insertion order: it is an association
  list with distinct keys, new keys appended. \<open>Math.round(v)\<close> is \<open>\<lfloor>v + 1/2\<rfloor>\<close>.
\<close>

type_synonym line_map = "(int \<times> token list) list"

definition yKey_of :: "token \<Rightarrow> int" where
  "yKey_of it = \<lfloor>tok_y it / 2 + 1 / 2\<rfloor> * 2"

fun map_push :: "int \<Rightarrow> token \<Rightarrow> line_map \<Rightarrow> line_map" where
  "map_push k it [] = [(k, [it])]"
| "map_push k it ((k', l) # m) =
     (if k' = k then (k', l @ [it]) # m else (k', l) # map_push k it m)"

definition groupByLine :: "token list \<Rightarrow> line_map" where
  "groupByLine items = fold (\<lambda>it m. map_push (yKey_of it) it m) items []"

definition day_count :: "token list \<Rightarrow> nat" where
  "day_count line = length (filter (\<lambda>t. is_day_number (str t)) line)"

text \<open>\<open>pickBestDayHeaderLine\<close>: the loop state is \<open>(best, bestCount)\<close>, \<open>null\<close> is \<open>None\<close>.\<close>

definition header_step :: "token list \<Rightarrow> token list option \<times> nat \<Rightarrow> token list option \<times> nat" where
  "header_step line = (\<lambda>(best, bestCount).
     let count = day_count line in
     if count > bestCount then (Some line, count) else (best, bestCount))"

definition pickBestDayHeaderLine :: "line_map \<Rightarrow> token list option" where
  "pickBestDayHeaderLine lines =
     (let (best, bestCount) = fold header_step (map snd lines) (None, 0) in
      if bestCount \<ge> 20 then best else None)"

section \<open>Nearest day\<close>

record anchor =
  day :: nat
  anchor_x :: rat

text \<open>
  \<open>nearestDay\<close>: the loop state is \<open>(best, bestDist)\<close>; \<open>bestDist\<close> starts at
  \<open>Infinity\<close>, here \<open>None\<close>, which every distance is below and which is not below 12.
\<close>

definition nearest_step :: "rat \<Rightarrow> anchor \<Rightarrow> nat option \<times> rat option \<Rightarrow> nat option \<times> rat option" where
  "nearest_step x a = (\<lambda>(best, bestDist).
     let d = \<bar>x - anchor_x a\<bar> in
     if (case bestDist of None \<Rightarrow> True | Some b \<Rightarrow> d < b) then (Some (day a), Some d)
     else (best, bestDist))"

definition nearestDay :: "rat \<Rightarrow> anchor list \<Rightarrow> nat option" where
  "nearestDay x anchors =
     (let (best, bestDist) = fold (nearest_step x) anchors (None, None) in
      if (case bestDist of None \<Rightarrow> False | Some b \<Rightarrow> b < 12) then best else None)"

section \<open>Line tests\<close>

text \<open>
  The match of \<open>/^SHIFT\s+(.+)$/i\<close>, giving group 1. \<open>\s+\<close> is greedy and \<open>.\<close> matches
  no line terminator: the group is what follows the white space after \<open>SHIFT\<close>, or, when
  nothing follows it, the last white-space character, given back by \<open>\s+\<close>.
\<close>

definition match_shift :: "string \<Rightarrow> string option" where
  "match_shift t =
     (if startsWith_ci t ''SHIFT'' then
        let r = drop 5 t; g = dropWhile is_space r in
        if g = r then None
        else if g \<noteq> [] then (if list_ex is_line_terminator g then None else Some g)
        else if length r \<ge> 2 \<and> \<not> is_line_terminator (last r) then Some [last r]
        else None
      else None)"

definition direct_labels :: "string list" where
  "direct_labels =
     [''GSE'', ''TOOLING'', ''ADMINIST.'', ''ADMINIST'', ''SUPERVISORS'', ''SHIFT B2'', ''SHIFT C'',
      ''SHIFT B'']"

definition detectShiftLabel :: "string \<Rightarrow> string option" where
  "detectShiftLabel text =
     (let t = trim (collapse_ws text) in
      case match_shift t of
        Some m1 \<Rightarrow> Some (collapse_ws (trim m1))
      | None \<Rightarrow> find (\<lambda>k. toUpperCase t = toUpperCase k) direct_labels)"

text \<open>
  \<open>/^\d(\s+\d){5,}/\<close>: a digit, then at least five groups of white space and a digit.
  \<open>digit_groups s\<close> counts the groups at the start of \<open>s\<close>.
\<close>

function digit_groups :: "string \<Rightarrow> nat" where
  "digit_groups [] = 0"
| "digit_groups (c # cs) =
     (if is_space c then
        (case dropWhile is_space cs of
           [] \<Rightarrow> 0
         | d # ds \<Rightarrow> if is_digit d then Suc (digit_groups ds) else 0)
      else 0)"
  by pat_completeness auto
termination
proof (relation "measure length")
  fix c d :: char and cs ds :: string
  assume "dropWhile is_space cs = d # ds"
  then have "length (d # ds) \<le> length cs"
    by (metis length_dropWhile_le)
  then show "(ds, c # cs) \<in> measure length" by simp
qed simp

definition digit_run :: "string \<Rightarrow> bool" where
  "digit_run t = (case t of [] \<Rightarrow> False | c # cs \<Rightarrow> is_digit c \<and> digit_groups cs \<ge> 5)"

definition isNonEmployeeLine :: "string \<Rightarrow> bool" where
  "isNonEmployeeLine text =
     (let t = trim (toUpperCase text) in
      if t = [] then True
      else includes_str t ''MONTHLY SCHEDULE'' \<or> startsWith t ''TOTAL'' \<or> includes_str t ''HEAD COUNT'' \<or>
           includes_str t ''FERIADO'' \<or> includes_str t ''LAST REV'' \<or> startsWith t ''SUN '' \<or> digit_run t)"

text \<open>\<open>/^WORD\b/i\<close> for a literal of word characters: the prefix, then no word character.\<close>

definition starts_word_ci :: "string \<Rightarrow> string \<Rightarrow> bool" where
  "starts_word_ci t p \<longleftrightarrow>
     startsWith_ci t p \<and> (case drop (length p) t of [] \<Rightarrow> True | c # _ \<Rightarrow> \<not> is_word c)"

text \<open>
  \<open>looksLikeEmployeeName\<close>. Its last test asks for a letter; of the character class of
  the source, the ASCII letters \<open>[A-Za-z]\<close> are modelled.
\<close>

definition looksLikeEmployeeName :: "string \<Rightarrow> bool" where
  "looksLikeEmployeeName leftText =
     (let t = trim leftText in
      if t = [] \<or> length t < 3 then False
      else if starts_word_ci t ''TOTAL'' then False
      else if starts_word_ci t ''HEAD'' then False
      else list_ex is_alpha t)"

text \<open>
  \<open>/\s+(\d{1,2}|fe)\s*$/i\<close>: \<open>tail_match u\<close> says that the whole of \<open>u\<close> is white space
  (at least one), then one or two digits or \<open>fe\<close>, then white space. \<open>strip_tail\<close> is
  \<open>replace\<close> with the empty string: the leftmost match, which runs to the end, is cut.
\<close>

definition is_num_or_fe :: "string \<Rightarrow> bool" where
  "is_num_or_fe tok \<longleftrightarrow> is_day_number tok \<or> toUpperCase tok = ''FE''"

definition tail_match :: "string \<Rightarrow> bool" where
  "tail_match u =
     (let r = dropWhile is_space u in
      r \<noteq> u \<and> is_num_or_fe (rev (dropWhile is_space (rev r))))"

fun strip_tail :: "string \<Rightarrow> string" where
  "strip_tail [] = []"
| "strip_tail (c # cs) = (if tail_match (c # cs) then [] else c # strip_tail cs)"

definition cleanEmployeeName :: "string \<Rightarrow> string" where
  "cleanEmployeeName leftText = trim (strip_tail (trim (collapse_ws leftText)))"

section \<open>Code normalizer\<close>

definition month_names :: "string list" where
  "month_names =
     [''JANUARY'', ''FEBRUARY'', ''MARCH'', ''APRIL'', ''MAY'', ''JUNE'', ''JULY'', ''AUGUST'',
      ''SEPTEMBER'', ''OCTOBER'', ''NOVEMBER'', ''DECEMBER'']"

text \<open>\<open>/^[A-Za-z]{1,6}\d{0,3}$/\<close> and \<open>/^[A-Za-z]{2,6}$/\<close>\<close>

definition code_pattern1 :: "string \<Rightarrow> bool" where
  "code_pattern1 t =
     (let ls = takeWhile is_alpha t; ds = dropWhile is_alpha t in
      1 \<le> length ls \<and> length ls \<le> 6 \<and> length ds \<le> 3 \<and> list_all is_digit ds)"

definition code_pattern2 :: "string \<Rightarrow> bool" where
  "code_pattern2 t \<longleftrightarrow> 2 \<le> length t \<and> length t \<le> 6 \<and> list_all is_alpha t"

definition normalizeCode :: "string \<Rightarrow> string option" where
  "normalizeCode s =
     (let t = trim s in
      if t = [] then None
      else if is_day_number t then None
      else if toUpperCase t \<in> set month_names then None
      else if code_pattern1 t \<or> code_pattern2 t then Some (toUpperCase t)
      else None)"

section \<open>Month and year\<close>

text \<open>
  \<open>monthNameToNumber\<close>; it is only called on a name the month pattern matched.
\<close>

definition monthNameToNumber :: "string \<Rightarrow> nat option" where
  "monthNameToNumber nm =
     map_of [(''january'', 1), (''february'', 2), (''march'', 3), (''april'', 4), (''may'', 5),
             (''june'', 6), (''july'', 7), (''august'', 8), (''september'', 9), (''october'', 10),
             (''november'', 11), (''december'', 12)] (toLowerCase nm)"

text \<open>
  The month pattern \<open>/\b(January|...|December)\b\s+(\d{4})/i\<close>. \<open>month_here s\<close> is the
  match that starts at the head of \<open>s\<close>, as groups 1 and 2: a month name, white space, four
  digits (the \<open>\b\<close> after the name holds, white space following). No month name is a prefix
  of another, so the first alternative that fits is the only one. \<open>month_search\<close> finds
  the leftmost match; \<open>prev\<close> is the character before \<open>s\<close>, for the leading \<open>\b\<close>.
\<close>

definition month_here :: "string \<Rightarrow> (string \<times> string) option" where
  "month_here s =
     (case find (\<lambda>nm. startsWith_ci s nm) month_names of
        None \<Rightarrow> None
      | Some nm \<Rightarrow>
          let r = drop (length nm) s; g = dropWhile is_space r in
          if g \<noteq> r \<and> length g \<ge> 4 \<and> list_all is_digit (take 4 g)
          then Some (take (length nm) s, take 4 g) else None)"

fun month_search :: "char option \<Rightarrow> string \<Rightarrow> (string \<times> string) option" where
  "month_search prev [] = None"
| "month_search prev (c # cs) =
     (if (case prev of None \<Rightarrow> True | Some p \<Rightarrow> \<not> is_word p) \<and> month_here (c # cs) \<noteq> None
      then month_here (c # cs)
      else month_search (Some c) cs)"

definition match_month_year :: "string \<Rightarrow> (string \<times> string) option" where
  "match_month_year fullText = month_search None fullText"

section \<open>The parser\<close>

record employee =
  name :: string
  shift :: string
  codes :: "nat \<rightharpoonup> string"

text \<open>
  The accumulators of \<open>parseSchedulePDF\<close>. The set of shifts is a JavaScript \<open>Set\<close>:
  a list without duplicates, in insertion order.
\<close>

record pstate =
  st_employees :: "employee list"
  st_shifts :: "string list"
  detectedMonth :: "nat option"
  detectedYear :: "nat option"

definition set_add :: "string \<Rightarrow> string list \<Rightarrow> string list" where
  "set_add s ss = (if s \<in> set ss then ss else ss @ [s])"

definition init_state :: pstate where
  "init_state = \<lparr>st_employees = [], st_shifts = [], detectedMonth = None, detectedYear = None\<rparr>"

text \<open>A number or \<open>null\<close> is falsy when it is \<open>null\<close> or 0.\<close>

definition falsy :: "nat option \<Rightarrow> bool" where
  "falsy v \<longleftrightarrow> (case v of None \<Rightarrow> True | Some n \<Rightarrow> n = 0)"

text \<open>The body of the loop over the tokens of the right region.\<close>

definition add_code :: "anchor list \<Rightarrow> token \<Rightarrow> (nat \<rightharpoonup> string) \<Rightarrow> (nat \<rightharpoonup> string)" where
  "add_code dayAnchors t cs =
     (case normalizeCode (str t) of
        None \<Rightarrow> cs
      | Some code \<Rightarrow>
          if code = [] then cs
          else (case nearestDay (tok_x t) dayAnchors of
                  None \<Rightarrow> cs
                | Some d \<Rightarrow> if d = 0 then cs
                            else if d \<ge> 1 \<and> d \<le> 31 then cs(d \<mapsto> code) else cs))"

text \<open>\<open>lines.get(yKey)\<close>; the keys come from the map itself.\<close>

definition lines_get :: "line_map \<Rightarrow> int \<Rightarrow> token list" where
  "lines_get lines k = (case map_of lines k of Some l \<Rightarrow> l | None \<Rightarrow> [])"

text \<open>
  One turn of the loop over the lines of a page, from the noise test on; the state is the
  accumulators and \<open>currentShift\<close>.
\<close>

definition process_row :: "anchor list \<Rightarrow> rat \<Rightarrow> token list \<Rightarrow> string \<Rightarrow> pstate \<times> string \<Rightarrow> pstate \<times> string" where
  "process_row dayAnchors minDayX line text = (\<lambda>(st, currentShift).
     if isNonEmployeeLine text then (st, currentShift)
     else
       let left = filter (\<lambda>t. tok_x t < minDayX - 12) line;
           right = filter (\<lambda>t. tok_x t \<ge> minDayX - 12) line;
           leftText = trim (join_sp (map str left))
       in if \<not> looksLikeEmployeeName leftText then (st, currentShift)
          else
            let nm = cleanEmployeeName leftText;
                cs = fold (add_code dayAnchors) right Map.empty
            in (st\<lparr>st_employees := st_employees st @ [\<lparr>name = nm, shift = currentShift, codes = cs\<rparr>],
                    st_shifts := set_add currentShift (st_shifts st)\<rparr>,
                currentShift))"

text \<open>One turn of the loop over the lines: the shift-label test first.\<close>

definition process_line :: "line_map \<Rightarrow> anchor list \<Rightarrow> rat \<Rightarrow> int \<Rightarrow> pstate \<times> string \<Rightarrow> pstate \<times> string" where
  "process_line lines dayAnchors minDayX yKey = (\<lambda>(st, currentShift).
     let line = sort_key tok_x (lines_get lines yKey);
         text = trim (join_sp (map str line))
     in case detectShiftLabel text of
          Some sLabel \<Rightarrow>
            if sLabel \<noteq> [] then (st\<lparr>st_shifts := set_add sLabel (st_shifts st)\<rparr>, sLabel)
            else process_row dayAnchors minDayX line text (st, currentShift)
        | None \<Rightarrow> process_row dayAnchors minDayX line text (st, currentShift))"

text \<open>The month and year detection of a page.\<close>

definition detect_month_year :: "string \<Rightarrow> pstate \<Rightarrow> pstate" where
  "detect_month_year fullText st =
     (case match_month_year fullText of
        None \<Rightarrow> st
      | Some (m1, m2) \<Rightarrow>
          if falsy (detectedYear st)
          then st\<lparr>detectedYear := Some (Number_digits m2), detectedMonth := monthNameToNumber m1\<rparr>
          else st)"

text \<open>
  The body of the loop over the pages. \<open>currentShift\<close> is declared inside it, after the
  header test. The header has at least 20 tokens, so \<open>Math.min\<close> has arguments.
\<close>

definition process_page :: "token list \<Rightarrow> pstate \<Rightarrow> pstate" where
  "process_page raw st =
     (let items = page_items raw;
          fullText = join_sp (map str items);
          st1 = detect_month_year fullText st;
          lines = groupByLine items
      in case pickBestDayHeaderLine lines of
           None \<Rightarrow> st1
         | Some headerLine \<Rightarrow>
             let dayCols = sort_key tok_x (filter (\<lambda>t. is_day_number (str t)) headerLine);
                 dayAnchors = map (\<lambda>t. \<lparr>day = Number_digits (str t), anchor_x = tok_x t\<rparr>) dayCols;
                 minDayX = min_list (map anchor_x dayAnchors);
                 yKeys = sort_key uminus (map fst lines)
             in fst (fold (process_line lines dayAnchors minDayX) yKeys (st1, ''Unknown'')))"

text \<open>
  The result, without \<open>daysInMonth\<close>. The system date is an input: \<open>now_year\<close> is
  \<open>new Date().getFullYear()\<close>, \<open>now_month\<close> is \<open>new Date().getMonth() + 1\<close>.
\<close>

record sysdate =
  now_year :: nat
  now_month :: nat

record schedule =
  month :: nat
  year :: nat
  employees :: "employee list"
  shifts :: "string list"

definition or_else :: "nat option \<Rightarrow> nat \<Rightarrow> nat" where
  "or_else v d = (if falsy v then d else (case v of Some n \<Rightarrow> n | None \<Rightarrow> d))"

definition finish :: "sysdate \<Rightarrow> pstate \<Rightarrow> schedule" where
  "finish now st =
     \<lparr>month = or_else (detectedMonth st) (now_month now),
      year = or_else (detectedYear st) (now_year now),
      employees = st_employees st,
      shifts = st_shifts st\<rparr>"

definition parseSchedulePDF :: "sysdate \<Rightarrow> token list list \<Rightarrow> schedule" where
  "parseSchedulePDF now pages = finish now (fold process_page pages init_state)"

section \<open>Auxiliary notions for the statements\<close>

text \<open>The line under key \<open>k\<close> is a shift label: \<open>sLabel\<close> is a non-empty string.\<close>

definition is_label_line :: "line_map \<Rightarrow> int \<Rightarrow> bool" where
  "is_label_line lines k \<longleftrightarrow>
     (case detectShiftLabel (trim (join_sp (map str (sort_key tok_x (lines_get lines k))))) of
        None \<Rightarrow> False | Some l \<Rightarrow> l \<noteq> [])"

text \<open>
  Names for the values \<open>parseSchedulePDF\<close> computes on a page with the header line
  \<open>h\<close>: \<open>dayAnchors\<close> and \<open>yKeys\<close>. The line under key \<open>k\<close> is an employee row when
  the loop appends an employee for it: it is no shift label and no noise line, and its left
  region looks like a name. \<open>rows_before raw h n\<close> is the keys of the employee rows among
  the first \<open>n\<close> lines of the page, in the order of the loop.
\<close>

definition day_anchors_of :: "token list \<Rightarrow> anchor list" where
  "day_anchors_of h =
     map (\<lambda>t. \<lparr>day = Number_digits (str t), anchor_x = tok_x t\<rparr>)
       (sort_key tok_x (filter (\<lambda>t. is_day_number (str t)) h))"

definition page_yKeys :: "token list \<Rightarrow> int list" where
  "page_yKeys raw = sort_key uminus (map fst (groupByLine (page_items raw)))"

definition is_employee_line :: "line_map \<Rightarrow> rat \<Rightarrow> int \<Rightarrow> bool" where
  "is_employee_line lines minDayX k \<longleftrightarrow>
     (let line = sort_key tok_x (lines_get lines k) in
      \<not> is_label_line lines k \<and>
      \<not> isNonEmployeeLine (trim (join_sp (map str line))) \<and>
      looksLikeEmployeeName
        (trim (join_sp (map str (filter (\<lambda>t. tok_x t < minDayX - 12) line)))))"

definition rows_before :: "token list \<Rightarrow> token list \<Rightarrow> nat \<Rightarrow> int list" where
  "rows_before raw h n =
     filter (is_employee_line (groupByLine (page_items raw))
               (min_list (map anchor_x (day_anchors_of h))))
       (take n (page_yKeys raw))"

text \<open>
  Shapes of text, for the name cleanup. \<open>collapsed\<close>: every white-space character is a
  space, and none follows it. \<open>spaced\<close>: moreover the text neither starts nor ends with
  one. \<open>rtrim\<close> is the right half of \<open>trim\<close>.
\<close>

fun collapsed :: "string \<Rightarrow> bool" where
  "collapsed [] = True"
| "collapsed (c # cs) =
     (if is_space c
      then c = CHR '' '' \<and> (case cs of [] \<Rightarrow> True | d # _ \<Rightarrow> \<not> is_space d) \<and> collapsed cs
      else collapsed cs)"

fun spaced :: "string \<Rightarrow> bool" where
  "spaced [] = True"
| "spaced [c] = (\<not> is_space c)"
| "spaced (c # d # cs) =
     (\<not> is_space c \<and>
      (if is_space d then d = CHR '' '' \<and> cs \<noteq> [] \<and> spaced cs else spaced (d # cs)))"

definition rtrim :: "string \<Rightarrow> string" where
  "rtrim s = rev (dropWhile is_space (rev s))"

section \<open>Sample pages\<close>

text \<open>
  A day header of twenty columns, 20 units apart, and pages built on it: a first page with
  a shift label and one employee row, a second page that starts with an employee row, and
  a cover page that holds only a title.
\<close>

definition tok :: "string \<Rightarrow> rat \<Rightarrow> rat \<Rightarrow> token" where
  "tok s x y = \<lparr>str = s, tok_x = x, tok_y = y, tok_w = 0, tok_h = 0\<rparr>"

definition header_row :: "rat \<Rightarrow> token list" where
  "header_row y =
     [tok ''1'' 100 y, tok ''2'' 120 y, tok ''3'' 140 y, tok ''4'' 160 y, tok ''5'' 180 y,
      tok ''6'' 200 y, tok ''7'' 220 y, tok ''8'' 240 y, tok ''9'' 260 y, tok ''10'' 280 y,
      tok ''11'' 300 y, tok ''12'' 320 y, tok ''13'' 340 y, tok ''14'' 360 y, tok ''15'' 380 y,
      tok ''16'' 400 y, tok ''17'' 420 y, tok ''18'' 440 y, tok ''19'' 460 y, tok ''20'' 480 y]"

definition page_one :: "token list" where
  "page_one = header_row 700 @ [tok ''SHIFT B'' 10 680, tok ''ANA'' 10 660, tok ''FG'' 100 660]"

definition page_two :: "token list" where
  "page_two = header_row 700 @ [tok ''BOB'' 10 680, tok ''DM'' 120 680]"

definition cover_page :: "token list" where
  "cover_page = [tok ''MONTHLY SCHEDULE January 2024'' 50 400]"

definition year_zero_page :: "token list" where
  "year_zero_page = [tok ''May 0000'' 50 400]"

definition today :: sysdate where
  "today = \<lparr>now_year = 2026, now_month = 11\<rparr>"

text \<open>The day anchors of the sample header.\<close>

definition sample_anchors :: "anchor list" where
  "sample_anchors =
     [\<lparr>day = 1, anchor_x = 100\<rparr>, \<lparr>day = 2, anchor_x = 120\<rparr>, \<lparr>day = 3, anchor_x = 140\<rparr>, \<lparr>day = 4, anchor_x = 160\<rparr>,
      \<lparr>day = 5, anchor_x = 180\<rparr>, \<lparr>day = 6, anchor_x = 200\<rparr>, \<lparr>day = 7, anchor_x = 220\<rparr>, \<lparr>day = 8, anchor_x = 240\<rparr>,
      \<lparr>day = 9, anchor_x = 260\<rparr>, \<lparr>day = 10, anchor_x = 280\<rparr>, \<lparr>day = 11, anchor_x = 300\<rparr>, \<lparr>day = 12, anchor_x = 320\<rparr>,
      \<lparr>day = 13, anchor_x = 340\<rparr>, \<lparr>day = 14, anchor_x = 360\<rparr>, \<lparr>day = 15, anchor_x = 380\<rparr>, \<lparr>day = 16, anchor_x = 400\<rparr>,
      \<lparr>day = 17, anchor_x = 420\<rparr>, \<lparr>day = 18, anchor_x = 440\<rparr>, \<lparr>day = 19, anchor_x = 460\<rparr>, \<lparr>day = 20, anchor_x = 480\<rparr>]"

section \<open>Header locator: properties\<close>

lemma header_step_apply:
  "header_step l (b, n) = (if day_count l > n then (Some l, day_count l) else (b, n))"
  by (simp add: header_step_def)

lemma fold_header_step:
  "fold header_step ls (b, n) = (b', n') \<Longrightarrow>
     n \<le> n' \<and> (\<forall>l\<in>set ls. day_count l \<le> n') \<and>
     ((b' = b \<and> n' = n) \<or> (\<exists>l\<in>set ls. b' = Some l \<and> day_count l = n' \<and> n < n'))"
proof (induction ls arbitrary: b n)
  case Nil
  then show ?case by simp
next
  case (Cons l ls)
  show ?case
  proof (cases "day_count l > n")
    case True
    with Cons.prems have "fold header_step ls (Some l, day_count l) = (b', n')"
      by (simp add: header_step_apply)
    from Cons.IH [OF this] True show ?thesis by auto
  next
    case False
    with Cons.prems have "fold header_step ls (b, n) = (b', n')"
      by (simp add: header_step_apply)
    from Cons.IH [OF this] False show ?thesis by auto
  qed
qed

text \<open>
  C6. The header locator answers with a line exactly when some line of the page has at
  least 20 tokens that are bare numbers of one or two digits. The line it answers with is a
  line of the page whose count is the greatest of the page and at least 20. The count looks
  at the bare numbers only, so the other tokens of a line play no part: with 19 the best
  line is rejected, with 20 it is taken.
\<close>

theorem pickBestDayHeaderLine_threshold:
  "(pickBestDayHeaderLine lines \<noteq> None \<longleftrightarrow> (\<exists>l\<in>set (map snd lines). 20 \<le> day_count l)) \<and>
   (\<forall>best. pickBestDayHeaderLine lines = Some best \<longrightarrow>
      best \<in> set (map snd lines) \<and> 20 \<le> day_count best \<and>
      (\<forall>l\<in>set (map snd lines). day_count l \<le> day_count best))"
proof -
  obtain b' n' where f: "fold header_step (map snd lines) (None, 0) = (b', n')"
    by (cases "fold header_step (map snd lines) (None, 0)")
  note h = fold_header_step [OF f]
  have p: "pickBestDayHeaderLine lines = (if 20 \<le> n' then b' else None)"
    by (simp add: pickBestDayHeaderLine_def f)
  show ?thesis
  proof (cases "20 \<le> n'")
    case True
    with h obtain l where "l \<in> set (map snd lines)" "b' = Some l" "day_count l = n'"
      by auto
    with True h p show ?thesis by auto
  next
    case False
    with h p show ?thesis by fastforce
  qed
qed

lemma day_count_header_row: "day_count (header_row y @ [tok ''TOTAL'' 10 y]) = 20"
  by (simp add: day_count_def header_row_def tok_def is_day_number_def is_digit_def)

lemma day_count_short_row: "day_count (butlast (header_row y) @ [tok ''TOTAL'' 10 y]) = 19"
  by (simp add: day_count_def header_row_def tok_def is_day_number_def is_digit_def)

theorem pickBestDayHeaderLine_threshold_witness:
  "pickBestDayHeaderLine [(700, header_row 700 @ [tok ''TOTAL'' 10 700])] \<noteq> None \<and>
   pickBestDayHeaderLine [(700, butlast (header_row 700) @ [tok ''TOTAL'' 10 700])] = None \<and>
   day_count (header_row 700 @ [tok ''TOTAL'' 10 700]) = 20 \<and>
   day_count (butlast (header_row 700) @ [tok ''TOTAL'' 10 700]) = 19"
  using pickBestDayHeaderLine_threshold [of "[(700, header_row 700 @ [tok ''TOTAL'' 10 700])]"]
    pickBestDayHeaderLine_threshold [of "[(700, butlast (header_row 700) @ [tok ''TOTAL'' 10 700])]"]
  by (simp add: day_count_header_row day_count_short_row)

section \<open>Nearest day: properties\<close>

lemma nearest_step_apply:
  "nearest_step x a (b, d) =
     (if (case d of None \<Rightarrow> True | Some v \<Rightarrow> \<bar>x - anchor_x a\<bar> < v)
      then (Some (day a), Some \<bar>x - anchor_x a\<bar>) else (b, d))"
  by (simp add: nearest_step_def)

lemma fold_nearest_keep:
  "\<forall>a\<in>set as. v \<le> \<bar>x - anchor_x a\<bar> \<Longrightarrow> fold (nearest_step x) as (b, Some v) = (b, Some v)"
  by (induction as) (auto simp: nearest_step_apply)

text \<open>The loop ends on the first anchor at the least distance.\<close>

lemma fold_nearest_first:
  "i < length as \<Longrightarrow>
   \<forall>k<i. \<bar>x - anchor_x (as ! i)\<bar> < \<bar>x - anchor_x (as ! k)\<bar> \<Longrightarrow>
   \<forall>a\<in>set as. \<bar>x - anchor_x (as ! i)\<bar> \<le> \<bar>x - anchor_x a\<bar> \<Longrightarrow>
   (case d of None \<Rightarrow> True | Some v \<Rightarrow> \<bar>x - anchor_x (as ! i)\<bar> < v) \<Longrightarrow>
   fold (nearest_step x) as (b, d) = (Some (day (as ! i)), Some \<bar>x - anchor_x (as ! i)\<bar>)"
proof (induction as arbitrary: i b d)
  case Nil
  then show ?case by simp
next
  case (Cons a as)
  show ?case
  proof (cases i)
    case 0
    have "nearest_step x a (b, d) = (Some (day a), Some \<bar>x - anchor_x a\<bar>)"
      using Cons.prems(4) unfolding 0 by (cases d) (simp_all add: nearest_step_apply)
    moreover have "\<forall>a'\<in>set as. \<bar>x - anchor_x a\<bar> \<le> \<bar>x - anchor_x a'\<bar>"
      using Cons.prems(3) 0 by simp
    ultimately show ?thesis using 0
      by (simp add: fold_nearest_keep)
  next
    case (Suc j)
    with Cons.prems have lt: "\<bar>x - anchor_x (as ! j)\<bar> < \<bar>x - anchor_x a\<bar>"
      by auto
    obtain b1 d1 where s: "nearest_step x a (b, d) = (b1, d1)"
      by (cases "nearest_step x a (b, d)")
    have d1: "case d1 of None \<Rightarrow> True | Some v \<Rightarrow> \<bar>x - anchor_x (as ! j)\<bar> < v"
      using s lt Cons.prems(4) Suc
      by (auto simp: nearest_step_apply split: if_splits option.splits)
    have j: "j < length as" using Cons.prems(1) Suc by simp
    have before: "\<forall>k<j. \<bar>x - anchor_x (as ! j)\<bar> < \<bar>x - anchor_x (as ! k)\<bar>"
    proof (intro allI impI)
      fix k assume "k < j"
      then have "Suc k < i" using Suc by simp
      with Cons.prems(2) have "\<bar>x - anchor_x ((a # as) ! i)\<bar> < \<bar>x - anchor_x ((a # as) ! Suc k)\<bar>"
        by blast
      then show "\<bar>x - anchor_x (as ! j)\<bar> < \<bar>x - anchor_x (as ! k)\<bar>"
        using Suc by simp
    qed
    have all: "\<forall>a\<in>set as. \<bar>x - anchor_x (as ! j)\<bar> \<le> \<bar>x - anchor_x a\<bar>"
      using Cons.prems(3) Suc by simp
    from Cons.IH [OF j before all d1, of b1] s Suc show ?thesis by simp
  qed
qed

text \<open>A non-empty list has a first position at which a measure is least.\<close>

lemma first_min_index:
  fixes f :: "'a \<Rightarrow> rat"
  assumes "as \<noteq> []"
  shows "\<exists>i<length as. (\<forall>k<i. f (as ! i) < f (as ! k)) \<and> (\<forall>a\<in>set as. f (as ! i) \<le> f a)"
proof -
  define m where "m = Min (f ` set as)"
  have fin: "finite (f ` set as)" "f ` set as \<noteq> {}" using assms by auto
  have "m \<in> f ` set as" unfolding m_def using fin by (rule Min_in)
  then obtain j where j: "j < length as" "f (as ! j) = m"
    by (auto simp: in_set_conv_nth)
  define i where "i = (LEAST j. j < length as \<and> f (as ! j) = m)"
  have i: "i < length as \<and> f (as ! i) = m"
    unfolding i_def by (rule LeastI [of _ j]) (use j in simp)
  have least: "\<And>k. k < length as \<Longrightarrow> f (as ! k) = m \<Longrightarrow> i \<le> k"
    unfolding i_def by (rule Least_le) simp
  have ge: "\<And>a. a \<in> set as \<Longrightarrow> m \<le> f a"
    unfolding m_def using fin by simp
  have "\<forall>k<i. f (as ! i) < f (as ! k)"
  proof (intro allI impI)
    fix k assume k: "k < i"
    then have kl: "k < length as" using i by simp
    then have "m \<le> f (as ! k)" using ge by simp
    moreover have "f (as ! k) \<noteq> m" using least [OF kl] k by auto
    ultimately show "f (as ! i) < f (as ! k)" using i by simp
  qed
  with i ge show ?thesis by auto
qed

text \<open>
  C3, as amended. For a non-empty list of anchors, the day mapper gives no day exactly
  when the least absolute horizontal distance from the token to an anchor is 12 units or
  more (a token exactly 12 units from its nearest anchor is discarded too); otherwise the
  day it gives is the day of an anchor at that least distance.
\<close>

theorem nearestDay_tolerance:
  assumes "anchors \<noteq> []"
  shows "(nearestDay x anchors = None \<longleftrightarrow> 12 \<le> Min ((\<lambda>a. \<bar>x - anchor_x a\<bar>) ` set anchors)) \<and>
         (\<forall>d. nearestDay x anchors = Some d \<longrightarrow>
            (\<exists>a\<in>set anchors. d = day a \<and>
               \<bar>x - anchor_x a\<bar> = Min ((\<lambda>a. \<bar>x - anchor_x a\<bar>) ` set anchors)))"
proof -
  let ?f = "\<lambda>a. \<bar>x - anchor_x a\<bar>"
  from first_min_index [OF assms, of ?f] obtain i where
    i: "i < length anchors" "\<forall>k<i. ?f (anchors ! i) < ?f (anchors ! k)"
       "\<forall>a\<in>set anchors. ?f (anchors ! i) \<le> ?f a"
    by blast
  have m: "Min (?f ` set anchors) = ?f (anchors ! i)"
  proof (rule Min_eqI)
    show "finite (?f ` set anchors)" by simp
    show "\<And>y. y \<in> ?f ` set anchors \<Longrightarrow> ?f (anchors ! i) \<le> y" using i(3) by auto
    show "?f (anchors ! i) \<in> ?f ` set anchors" using i(1) by simp
  qed
  have n: "nearestDay x anchors = (if ?f (anchors ! i) < 12 then Some (day (anchors ! i)) else None)"
    using fold_nearest_first [OF i(1) i(2) i(3), of None None] by (simp add: nearestDay_def)
  have "anchors ! i \<in> set anchors" using i(1) by simp
  with m n show ?thesis by (auto split: if_splits)
qed

theorem nearestDay_tolerance_witness:
  "[\<lparr>day = 1, anchor_x = 0\<rparr>, \<lparr>day = 2, anchor_x = 30\<rparr>] \<noteq> [] \<and>
   nearestDay 0 [\<lparr>day = 1, anchor_x = 0\<rparr>, \<lparr>day = 2, anchor_x = 30\<rparr>] = Some 1 \<and>
   nearestDay 19 [\<lparr>day = 1, anchor_x = 0\<rparr>, \<lparr>day = 2, anchor_x = 30\<rparr>] = Some 2 \<and>
   nearestDay 43 [\<lparr>day = 1, anchor_x = 0\<rparr>, \<lparr>day = 2, anchor_x = 30\<rparr>] = None"
  using nearestDay_tolerance [of "[\<lparr>day = 1, anchor_x = 0\<rparr>, \<lparr>day = 2, anchor_x = 30\<rparr>]" 0]
    nearestDay_tolerance [of "[\<lparr>day = 1, anchor_x = 0\<rparr>, \<lparr>day = 2, anchor_x = 30\<rparr>]" 19]
    nearestDay_tolerance [of "[\<lparr>day = 1, anchor_x = 0\<rparr>, \<lparr>day = 2, anchor_x = 30\<rparr>]" 43]
  by auto

text \<open>
  The claim as it was stated fails at a token exactly 12 units from the only anchor: the
  least distance does not exceed 12, and the token is discarded.
\<close>

theorem nearestDay_at_twelve_counterexample:
  "nearestDay 12 [\<lparr>day = 1, anchor_x = 0\<rparr>] = None \<and>
   \<not> 12 < Min ((\<lambda>a. \<bar>12 - anchor_x a\<bar>) ` set [\<lparr>day = 1, anchor_x = 0\<rparr>])"
  by (simp add: nearestDay_def nearest_step_apply)

text \<open>
  C10, as amended. Let the anchors be sorted by ascending x, and let position \<open>i\<close> be the
  earliest one at the least absolute distance from the token: no anchor is nearer, and none
  before \<open>i\<close> is as near. When that distance is below the tolerance of 12, the lookup
  gives the day of the anchor at \<open>i\<close>, whatever anchors after \<open>i\<close> are equally near; when
  it is 12 or more, the lookup gives no day. The anchor at \<open>i\<close> has the smallest x among
  the equally near ones.
\<close>

theorem nearestDay_first_of_ties:
  assumes "sorted (map anchor_x anchors)"
    and "i < length anchors"
    and "\<forall>a\<in>set anchors. \<bar>x - anchor_x (anchors ! i)\<bar> \<le> \<bar>x - anchor_x a\<bar>"
    and "\<forall>k<i. \<bar>x - anchor_x (anchors ! k)\<bar> \<noteq> \<bar>x - anchor_x (anchors ! i)\<bar>"
  shows "nearestDay x anchors =
           (if \<bar>x - anchor_x (anchors ! i)\<bar> < 12 then Some (day (anchors ! i)) else None) \<and>
         (\<forall>j<length anchors. \<bar>x - anchor_x (anchors ! j)\<bar> = \<bar>x - anchor_x (anchors ! i)\<bar> \<longrightarrow>
            i \<le> j \<and> anchor_x (anchors ! i) \<le> anchor_x (anchors ! j))"
proof -
  have "\<forall>k<i. \<bar>x - anchor_x (anchors ! i)\<bar> < \<bar>x - anchor_x (anchors ! k)\<bar>"
  proof (intro allI impI)
    fix k assume k: "k < i"
    then have "anchors ! k \<in> set anchors" using assms(2) by simp
    with assms(3) have "\<bar>x - anchor_x (anchors ! i)\<bar> \<le> \<bar>x - anchor_x (anchors ! k)\<bar>" by blast
    with assms(4) k show "\<bar>x - anchor_x (anchors ! i)\<bar> < \<bar>x - anchor_x (anchors ! k)\<bar>"
      by fastforce
  qed
  from fold_nearest_first [OF assms(2) this assms(3), of None None]
  have 1: "nearestDay x anchors =
      (if \<bar>x - anchor_x (anchors ! i)\<bar> < 12 then Some (day (anchors ! i)) else None)"
    by (simp add: nearestDay_def)
  have 2: "\<forall>j<length anchors. \<bar>x - anchor_x (anchors ! j)\<bar> = \<bar>x - anchor_x (anchors ! i)\<bar> \<longrightarrow>
      i \<le> j \<and> anchor_x (anchors ! i) \<le> anchor_x (anchors ! j)"
  proof (intro allI impI)
    fix j assume j: "j < length anchors"
      and e: "\<bar>x - anchor_x (anchors ! j)\<bar> = \<bar>x - anchor_x (anchors ! i)\<bar>"
    have ij: "i \<le> j" using assms(4) e by (meson not_le_imp_less)
    have "map anchor_x anchors ! i \<le> map anchor_x anchors ! j"
      by (rule sorted_nth_mono [OF assms(1) ij]) (use j in simp)
    with ij j show "i \<le> j \<and> anchor_x (anchors ! i) \<le> anchor_x (anchors ! j)"
      by simp
  qed
  from 1 2 show ?thesis by blast
qed

theorem nearestDay_first_of_ties_witness:
  "sorted (map anchor_x [\<lparr>day = 1, anchor_x = 0\<rparr>, \<lparr>day = 2, anchor_x = 10\<rparr>]) \<and>
   \<bar>5 - anchor_x \<lparr>day = 1, anchor_x = 0\<rparr>\<bar> = \<bar>5 - anchor_x \<lparr>day = 2, anchor_x = 10\<rparr>\<bar> \<and>
   nearestDay 5 [\<lparr>day = 1, anchor_x = 0\<rparr>, \<lparr>day = 2, anchor_x = 10\<rparr>] = Some 1"
  using nearestDay_first_of_ties [of "[\<lparr>day = 1, anchor_x = 0\<rparr>, \<lparr>day = 2, anchor_x = 10\<rparr>]" 0 5]
  by simp

text \<open>
  The claim as it was stated fails on a tie beyond the tolerance: two anchors are both 15
  units from the token, the least distance, and no day is returned.
\<close>

theorem nearestDay_far_tie_counterexample:
  "sorted (map anchor_x [\<lparr>day = 1, anchor_x = 0\<rparr>, \<lparr>day = 2, anchor_x = 30\<rparr>]) \<and>
   \<bar>15 - anchor_x \<lparr>day = 1, anchor_x = 0\<rparr>\<bar> = \<bar>15 - anchor_x \<lparr>day = 2, anchor_x = 30\<rparr>\<bar> \<and>
   nearestDay 15 [\<lparr>day = 1, anchor_x = 0\<rparr>, \<lparr>day = 2, anchor_x = 30\<rparr>] = None \<and>
   nearestDay 15 [\<lparr>day = 1, anchor_x = 0\<rparr>, \<lparr>day = 2, anchor_x = 30\<rparr>] \<noteq>
     Some (day \<lparr>day = 1, anchor_x = 0\<rparr>)"
  by (simp add: nearestDay_def nearest_step_apply)

section \<open>Name cleanup: properties\<close>

lemma trim_rtrim: "trim s = rtrim (dropWhile is_space s)"
  by (simp add: trim_def rtrim_def)

lemma rtrim_Nil [simp]: "rtrim [] = []"
  by (simp add: rtrim_def)

lemma rtrim_Cons:
  "rtrim (c # cs) =
     (if list_all is_space cs then (if is_space c then [] else [c]) else c # rtrim cs)"
  by (simp add: rtrim_def dropWhile_append list_all_iff)

lemma rtrim_eq_Nil: "rtrim s = [] \<longleftrightarrow> list_all is_space s"
  by (induction s) (auto simp: rtrim_Cons)

lemma spaced_hd: "spaced (c # cs) \<Longrightarrow> \<not> is_space c"
  by (cases cs) auto

lemma spaced_last: "spaced s \<Longrightarrow> s \<noteq> [] \<Longrightarrow> \<not> is_space (last s)"
  by (induction s rule: spaced.induct) (auto split: if_splits)

lemma dropWhile_id_hd: "s = [] \<or> \<not> P (hd s) \<Longrightarrow> dropWhile P s = s"
  by (cases s) auto

lemma spaced_trim: "spaced s \<Longrightarrow> trim s = s"
proof (cases s)
  case Nil
  then show ?thesis by (simp add: trim_def)
next
  case (Cons c cs)
  assume sp: "spaced s"
  with Cons have 1: "dropWhile is_space s = s" by (auto dest: spaced_hd)
  have "hd (rev s) = last s" using Cons by (simp add: hd_rev)
  with spaced_last [OF sp] Cons have "dropWhile is_space (rev s) = rev s"
    by (intro dropWhile_id_hd) auto
  with 1 show ?thesis by (simp add: trim_def)
qed

lemma spaced_collapse: "spaced s \<Longrightarrow> collapse_ws s = s"
proof (induction s rule: spaced.induct)
  case (3 c d cs)
  show ?case
  proof (cases "is_space d")
    case True
    with "3.prems" have d: "d = CHR '' ''" "cs \<noteq> []" "spaced cs" "\<not> is_space c" by auto
    then have "dropWhile is_space cs = cs" by (cases cs) (auto dest: spaced_hd)
    with "3.IH"(1) [OF True d(3)] True d show ?thesis by simp
  next
    case False
    with "3.prems" "3.IH"(2) show ?thesis by simp
  qed
qed simp_all

lemma collapse_ws_hd: "s \<noteq> [] \<Longrightarrow> \<not> is_space (hd s) \<Longrightarrow> collapse_ws s \<noteq> [] \<and> hd (collapse_ws s) = hd s"
  by (cases s) auto

lemma collapsed_collapse_ws: "collapsed (collapse_ws s)"
proof (induction s rule: collapse_ws.induct)
  case 1
  show ?case by simp
next
  case (2 c cs)
  show ?case
  proof (cases "is_space c")
    case True
    let ?r = "dropWhile is_space cs"
    have "case collapse_ws ?r of [] \<Rightarrow> True | d # _ \<Rightarrow> \<not> is_space d"
    proof (cases ?r)
      case Nil
      then show ?thesis by (simp del: dropWhile_eq_Nil_conv)
    next
      case (Cons d ds)
      then have "\<not> is_space d" using hd_dropWhile [of is_space cs] by auto
      with Cons show ?thesis by simp
    qed
    with True "2.IH"(1) show ?thesis by (simp add: is_space_def)
  next
    case False
    with "2.IH"(2) show ?thesis by simp
  qed
qed

lemma collapsed_tl: "collapsed (c # cs) \<Longrightarrow> collapsed cs"
  by (simp split: if_splits)

lemma collapsed_dropWhile: "collapsed s \<Longrightarrow> collapsed (dropWhile P s)"
  by (induction s) (auto split: if_splits)

lemma collapsed_rtrim:
  "collapsed s \<Longrightarrow>
     (case s of [] \<Rightarrow> True
      | c # cs \<Rightarrow> if is_space c then cs = [] \<or> spaced (rtrim cs) else spaced (rtrim s))"
proof (induction s)
  case Nil
  show ?case by simp
next
  case (Cons c cs)
  note ih = Cons.IH [OF collapsed_tl [OF Cons.prems]]
  show ?case
  proof (cases "is_space c")
    case True
    with Cons.prems ih show ?thesis by (cases cs) auto
  next
    case nc: False
    show ?thesis
    proof (cases "list_all is_space cs")
      case True
      with nc show ?thesis by (simp add: rtrim_Cons)
    next
      case False
      then obtain d ds where cs: "cs = d # ds" by (cases cs) auto
      show ?thesis
      proof (cases "is_space d")
        case True
        with False cs have nds: "\<not> list_all is_space ds" by simp
        then have ne: "ds \<noteq> []" "rtrim ds \<noteq> []" by (auto simp: rtrim_eq_Nil)
        from Cons.prems cs True have "d = CHR '' ''" by (simp split: if_splits)
        moreover from ih cs True ne have "spaced (rtrim ds)" by simp
        ultimately show ?thesis using nc False cs nds ne True
          by (simp add: rtrim_Cons)
      next
        case nd: False
        with ih cs have "spaced (rtrim (d # ds))" by simp
        moreover obtain r where "rtrim (d # ds) = d # r"
          using nd by (cases "list_all is_space ds") (simp_all add: rtrim_Cons)
        ultimately show ?thesis using nc nd False cs by (simp add: rtrim_Cons)
      qed
    qed
  qed
qed

lemma spaced_trim_collapse: "spaced (trim (collapse_ws s))"
proof -
  let ?r = "dropWhile is_space (collapse_ws s)"
  have c: "collapsed ?r" by (rule collapsed_dropWhile [OF collapsed_collapse_ws])
  show ?thesis
  proof (cases ?r)
    case Nil
    then show ?thesis by (simp add: trim_rtrim del: dropWhile_eq_Nil_conv)
  next
    case (Cons d ds)
    then have "\<not> is_space d" using hd_dropWhile [of is_space "collapse_ws s"] by auto
    with collapsed_rtrim [OF c] Cons show ?thesis by (simp add: trim_rtrim)
  qed
qed

lemma tail_match_space: "tail_match (c # cs) \<Longrightarrow> is_space c"
  by (auto simp: tail_match_def Let_def split: if_splits)

lemma strip_tail_hd: "\<not> is_space c \<Longrightarrow> strip_tail (c # cs) = c # strip_tail cs"
  using tail_match_space [of c cs] by auto

lemma spaced_strip_tail: "spaced s \<Longrightarrow> spaced (strip_tail s)"
proof (induction s rule: spaced.induct)
  case 1
  show ?case by simp
next
  case (2 c)
  then show ?case by (simp add: strip_tail_hd)
next
  case (3 c d cs)
  then have nc: "\<not> is_space c" by simp
  show ?case
  proof (cases "is_space d")
    case True
    with "3.prems" have d: "d = CHR '' ''" "cs \<noteq> []" "spaced cs" by auto
    then obtain e es where cs: "cs = e # es" "\<not> is_space e" by (cases cs) (auto dest: spaced_hd)
    have ih: "spaced (strip_tail cs)" using "3.IH"(1) [OF True d(3)] .
    have ne: "\<not> tail_match (e # es)" using cs(2) tail_match_space by blast
    show ?thesis
    proof (cases "tail_match (d # cs)")
      case True
      with nc show ?thesis by (simp add: strip_tail_hd)
    next
      case False
      with nc True d cs ih ne show ?thesis by (simp add: strip_tail_hd)
    qed
  next
    case False
    with "3.prems" have "spaced (d # cs)" by simp
    from "3.IH"(2) [OF False this] have "spaced (d # strip_tail cs)"
      by (simp only: strip_tail_hd [OF False])
    with nc False show ?thesis by (simp only: strip_tail_hd spaced.simps if_False simp_thms)
  qed
qed

lemma spaced_cleanEmployeeName: "spaced (cleanEmployeeName s)"
  using spaced_strip_tail [OF spaced_trim_collapse [of s]]
  by (simp add: cleanEmployeeName_def spaced_trim)

lemma strip_tail_id_iff: "strip_tail s = s \<longleftrightarrow> (\<forall>i<length s. \<not> tail_match (drop i s))"
proof (induction s)
  case Nil
  show ?case by simp
next
  case (Cons c cs)
  have "(\<forall>i<length (c # cs). \<not> tail_match (drop i (c # cs))) \<longleftrightarrow>
        \<not> tail_match (c # cs) \<and> (\<forall>i<length cs. \<not> tail_match (drop i cs))"
    by (auto simp: less_Suc_eq_0_disj)
  with Cons.IH show ?case by auto
qed

lemma cleanEmployeeName_eval:
  "cleanEmployeeName ''JOHN 1 2'' = ''JOHN 1''"
  "cleanEmployeeName ''JOHN 1'' = ''JOHN''"
  "cleanEmployeeName ''  JOHN   SMITH  fe '' = ''JOHN SMITH''"
  "cleanEmployeeName ''JOHN SMITH'' = ''JOHN SMITH''"
  by (simp_all add: cleanEmployeeName_def trim_def is_space_def tail_match_def is_num_or_fe_def
      is_day_number_def is_digit_def toUpperCase_def upper_char_def)

text \<open>
  C4, as amended. The cleanup strips one trailing token at each application. Its result
  is white-space normal (single spaces, none leading or trailing), so a second application
  only strips once more: cleaning twice is stripping the cleaned name once. Hence twice
  equals once exactly when no suffix of the once-cleaned name is white space followed by
  a bare number of one or two digits or by \<open>fe\<close>.
\<close>

theorem cleanEmployeeName_twice:
  "cleanEmployeeName (cleanEmployeeName s) = strip_tail (cleanEmployeeName s) \<and>
   (cleanEmployeeName (cleanEmployeeName s) = cleanEmployeeName s \<longleftrightarrow>
      (\<forall>i<length (cleanEmployeeName s). \<not> tail_match (drop i (cleanEmployeeName s))))"
proof -
  let ?c = "cleanEmployeeName s"
  have sp: "spaced ?c" by (rule spaced_cleanEmployeeName)
  have "cleanEmployeeName ?c = trim (strip_tail ?c)"
    unfolding cleanEmployeeName_def [of ?c] by (simp add: spaced_collapse [OF sp] spaced_trim [OF sp])
  also have "\<dots> = strip_tail ?c"
    by (rule spaced_trim [OF spaced_strip_tail [OF sp]])
  finally have 1: "cleanEmployeeName ?c = strip_tail ?c" .
  show ?thesis unfolding 1 by (simp add: strip_tail_id_iff)
qed

theorem cleanEmployeeName_twice_witness:
  "cleanEmployeeName ''  JOHN   SMITH  fe '' = ''JOHN SMITH'' \<and>
   strip_tail ''JOHN SMITH'' = ''JOHN SMITH'' \<and>
   cleanEmployeeName (cleanEmployeeName ''  JOHN   SMITH  fe '') =
     cleanEmployeeName ''  JOHN   SMITH  fe ''"
proof -
  have "strip_tail ''JOHN SMITH'' = ''JOHN SMITH''"
    by (simp add: tail_match_def is_space_def is_num_or_fe_def is_day_number_def is_digit_def
        toUpperCase_def upper_char_def)
  with cleanEmployeeName_twice [of "''  JOHN   SMITH  fe ''"] show ?thesis
    by (simp add: cleanEmployeeName_eval)
qed

text \<open>
  The claim as it was stated fails on a name followed by two stray numbers: the first
  application strips one of them, the second the other.
\<close>

theorem cleanEmployeeName_not_idempotent_counterexample:
  "cleanEmployeeName ''JOHN 1 2'' = ''JOHN 1'' \<and>
   cleanEmployeeName (cleanEmployeeName ''JOHN 1 2'') = ''JOHN'' \<and>
   cleanEmployeeName (cleanEmployeeName ''JOHN 1 2'') \<noteq> cleanEmployeeName ''JOHN 1 2''"
  by (simp add: cleanEmployeeName_eval)

section \<open>Code normalizer: properties\<close>

lemma upper_char_cases:
  "(is_lower c \<and> is_upper (upper_char c)) \<or> (\<not> is_lower c \<and> upper_char c = c)"
  by (simp add: upper_char_def is_lower_def is_upper_def)

lemma upper_not_lower: "is_upper c \<Longrightarrow> \<not> is_lower c"
  by (auto simp: is_lower_def is_upper_def)

lemma digit_not_alpha: "is_digit c \<Longrightarrow> \<not> is_alpha c"
  by (auto simp: is_digit_def is_alpha_def is_lower_def is_upper_def)

lemma is_alpha_upper_char [simp]: "is_alpha (upper_char c) = is_alpha c"
  using upper_char_cases [of c] by (auto simp: is_alpha_def)

lemma is_digit_upper_char [simp]: "is_digit (upper_char c) = is_digit c"
  using upper_char_cases [of c] digit_not_alpha [of c] digit_not_alpha [of "upper_char c"]
  by (auto simp: is_alpha_def)

lemma upper_char_idem [simp]: "upper_char (upper_char c) = upper_char c"
  using upper_char_cases [of c] upper_char_cases [of "upper_char c"] upper_not_lower
  by auto

lemma toUpperCase_idem: "toUpperCase (toUpperCase s) = toUpperCase s"
  by (simp add: toUpperCase_def)

lemma is_day_number_upper: "is_day_number (toUpperCase t) = is_day_number t"
  by (simp add: is_day_number_def toUpperCase_def list_all_iff)

lemma code_pattern1_upper: "code_pattern1 (toUpperCase t) = code_pattern1 t"
  by (simp add: code_pattern1_def Let_def toUpperCase_def takeWhile_map dropWhile_map comp_def list_all_iff)

lemma code_pattern2_upper: "code_pattern2 (toUpperCase t) = code_pattern2 t"
  by (simp add: code_pattern2_def toUpperCase_def list_all_iff)

lemma normalizeCode_Some:
  "normalizeCode s = Some c \<Longrightarrow>
     c \<noteq> [] \<and> toUpperCase c = c \<and> (code_pattern1 c \<or> code_pattern2 c) \<and> \<not> is_day_number c"
proof -
  assume a: "normalizeCode s = Some c"
  define t where "t = trim s"
  from a have c: "c = toUpperCase t" and t: "t \<noteq> []" "\<not> is_day_number t"
    "code_pattern1 t \<or> code_pattern2 t"
    by (auto simp: normalizeCode_def Let_def t_def split: if_splits)
  from t(1) have "c \<noteq> []" by (simp add: c toUpperCase_def)
  with t show ?thesis
    by (simp add: c toUpperCase_idem is_day_number_upper code_pattern1_upper code_pattern2_upper)
qed


section \<open>Day classifier: properties\<close>

lemma classify_cases:
  "classify c =
     (if toUpperCase (trim c) \<in> {''FG'', ''FA'', ''FC'', ''FE'', ''FF'', ''FAN'', ''COVE''} then Off
      else if toUpperCase (trim c) \<in> {''DM'', ''EMT'', ''AJ'', ''X''} then Absent
      else Working)"
  by (auto simp: classify_def Let_def OFF_CODES_def ABSENT_CODES_def)

lemma classify_examples:
  "map classify ['''', '' '', ''fg'', ''FG'', ''dm'', ''xyz''] =
     [Working, Working, Off, Off, Absent, Working]"
  by (simp add: classify_def Let_def OFF_CODES_def ABSENT_CODES_def trim_def is_space_def
      toUpperCase_def upper_char_def)

lemma is_space_upper_char: "is_space (upper_char c) = is_space c"
proof -
  have "\<not> is_space d" if "is_lower d \<or> is_upper d" for d
    using that by (auto simp: is_space_def is_lower_def is_upper_def)
  with upper_char_cases [of c] show ?thesis by auto
qed

lemma dropWhile_space_upper:
  "dropWhile is_space (map upper_char s) = map upper_char (dropWhile is_space s)"
  by (simp add: dropWhile_map comp_def is_space_upper_char)

lemma trim_toUpperCase: "trim (toUpperCase s) = toUpperCase (trim s)"
proof -
  have "rev (map upper_char (dropWhile is_space s)) = map upper_char (rev (dropWhile is_space s))"
    by (simp add: rev_map)
  then show ?thesis
    by (simp add: trim_def toUpperCase_def dropWhile_space_upper rev_map)
qed

lemma trim_idem: "trim (trim s) = trim s"
proof -
  let ?a = "dropWhile is_space s"
  have t: "trim s = rtrim ?a" by (rule trim_rtrim)
  have "dropWhile is_space (rtrim ?a) = rtrim ?a"
  proof (cases ?a)
    case Nil
    then show ?thesis by (simp del: dropWhile_eq_Nil_conv)
  next
    case (Cons d ds)
    then have nd: "\<not> is_space d" using hd_dropWhile [of is_space s] by auto
    then obtain r where "rtrim (d # ds) = d # r"
      by (cases "list_all is_space ds") (simp_all add: rtrim_Cons)
    with Cons nd show ?thesis by simp
  qed
  moreover have "rtrim (rtrim ?a) = rtrim ?a"
    by (simp add: rtrim_def)
  ultimately show ?thesis by (simp add: trim_rtrim)
qed

lemma classify_invariant: "classify (trim c) = classify c" "classify (toUpperCase c) = classify c"
  by (simp_all add: classify_def trim_idem trim_toUpperCase toUpperCase_idem)

text \<open>
  C5. \<open>classify\<close> is a function on all strings with values in working, off and absent.
  With \<open>u\<close> the upper-cased, trimmed argument: the value is off exactly when \<open>u\<close> is one
  of FG, FA, FC, FE, FF, FAN, COVE, absent exactly when \<open>u\<close> is one of DM, EMT, AJ, X, and
  working in every other case, the empty \<open>u\<close> among them. So the value does not change when
  the argument is trimmed or upper-cased beforehand. On the empty string, a blank, fg, FG,
  dm and xyz it gives working, working, off, off, absent, working.
\<close>

theorem classify_total:
  "(classify c = Off \<longleftrightarrow>
      toUpperCase (trim c) \<in> {''FG'', ''FA'', ''FC'', ''FE'', ''FF'', ''FAN'', ''COVE''}) \<and>
   (classify c = Absent \<longleftrightarrow> toUpperCase (trim c) \<in> {''DM'', ''EMT'', ''AJ'', ''X''}) \<and>
   (classify c = Working \<longleftrightarrow>
      toUpperCase (trim c) \<notin>
        {''FG'', ''FA'', ''FC'', ''FE'', ''FF'', ''FAN'', ''COVE'', ''DM'', ''EMT'', ''AJ'', ''X''}) \<and>
   (toUpperCase (trim c) = [] \<longrightarrow> classify c = Working) \<and>
   classify (trim c) = classify c \<and> classify (toUpperCase c) = classify c \<and>
   map classify ['''', '' '', ''fg'', ''FG'', ''dm'', ''xyz''] =
     [Working, Working, Off, Off, Absent, Working]"
proof -
  have "toUpperCase (trim c) = [] \<longrightarrow> classify c = Working"
    by (simp add: classify_def)
  moreover have
    "(classify c = Off \<longleftrightarrow>
        toUpperCase (trim c) \<in> {''FG'', ''FA'', ''FC'', ''FE'', ''FF'', ''FAN'', ''COVE''}) \<and>
     (classify c = Absent \<longleftrightarrow> toUpperCase (trim c) \<in> {''DM'', ''EMT'', ''AJ'', ''X''}) \<and>
     (classify c = Working \<longleftrightarrow>
        toUpperCase (trim c) \<notin>
          {''FG'', ''FA'', ''FC'', ''FE'', ''FF'', ''FAN'', ''COVE'', ''DM'', ''EMT'', ''AJ'', ''X''})"
    unfolding classify_cases by auto
  ultimately show ?thesis using classify_examples classify_invariant [of c] by blast
qed

theorem classify_total_witness:
  "toUpperCase (trim '' fe '') = ''FE'' \<and> classify '' fe '' = Off \<and>
   toUpperCase (trim ''  '') = [] \<and> classify ''  '' = Working"
proof -
  have 1: "toUpperCase (trim '' fe '') = ''FE''"
    by (simp add: trim_def is_space_def toUpperCase_def upper_char_def)
  have 2: "toUpperCase (trim ''  '') = []"
    by (simp add: trim_def is_space_def toUpperCase_def)
  from classify_total [of "'' fe ''"] classify_total [of "''  ''"] 1 2 show ?thesis
    by simp
qed

section \<open>The parser: what a line and a page do to the accumulators\<close>

lemma set_set_add [simp]: "set (set_add s ss) = insert s (set ss)"
  by (auto simp: set_add_def)

lemma set_fold_set_add [simp]: "set (fold set_add S ss) = set S \<union> set ss"
  by (induction S arbitrary: ss) auto

lemma add_code_sound:
  assumes "\<forall>d c. cs d = Some c \<longrightarrow> 1 \<le> d \<and> d \<le> 31 \<and> (\<exists>s. normalizeCode s = Some c)"
  shows "\<forall>d c. add_code A t cs d = Some c \<longrightarrow> 1 \<le> d \<and> d \<le> 31 \<and> (\<exists>s. normalizeCode s = Some c)"
  using assms
  by (auto simp: add_code_def split: option.splits if_splits)

lemma fold_add_code_sound:
  assumes "\<forall>d c. cs d = Some c \<longrightarrow> 1 \<le> d \<and> d \<le> 31 \<and> (\<exists>s. normalizeCode s = Some c)"
  shows "\<forall>d c. fold (add_code A) ts cs d = Some c \<longrightarrow>
           1 \<le> d \<and> d \<le> 31 \<and> (\<exists>s. normalizeCode s = Some c)"
  using assms
proof (induction ts arbitrary: cs)
  case Nil
  then show ?case by simp
next
  case (Cons t ts)
  from Cons.IH [OF add_code_sound [OF Cons.prems]] show ?case by simp
qed

text \<open>what one line does to the accumulators, whatever they hold\<close>

lemma process_row_effect:
  "\<exists>E S. (\<forall>st. process_row A m line text (st, cs) =
            (st\<lparr>st_employees := st_employees st @ E, st_shifts := fold set_add S (st_shifts st)\<rparr>, cs)) \<and>
         (\<forall>e\<in>set E. shift e = cs \<and> shift e \<in> set S \<and>
            (\<forall>d c. codes e d = Some c \<longrightarrow> 1 \<le> d \<and> d \<le> 31 \<and> (\<exists>s. normalizeCode s = Some c)))"
proof -
  let ?left = "filter (\<lambda>t. tok_x t < m - 12) line"
  let ?right = "filter (\<lambda>t. tok_x t \<ge> m - 12) line"
  let ?leftText = "trim (join_sp (map str ?left))"
  let ?e = "\<lparr>name = cleanEmployeeName ?leftText, shift = cs,
             codes = fold (add_code A) ?right Map.empty\<rparr>"
  show ?thesis
  proof (cases "isNonEmployeeLine text \<or> \<not> looksLikeEmployeeName ?leftText")
    case True
    then have "\<forall>st. process_row A m line text (st, cs) =
        (st\<lparr>st_employees := st_employees st @ [], st_shifts := fold set_add [] (st_shifts st)\<rparr>, cs)"
      by (auto simp: process_row_def)
    then show ?thesis by (intro exI [of _ "[]"]) simp
  next
    case False
    then have "\<forall>st. process_row A m line text (st, cs) =
        (st\<lparr>st_employees := st_employees st @ [?e], st_shifts := fold set_add [cs] (st_shifts st)\<rparr>, cs)"
      by (simp add: process_row_def Let_def)
    moreover have "\<forall>d c. codes ?e d = Some c \<longrightarrow>
        1 \<le> d \<and> d \<le> 31 \<and> (\<exists>s. normalizeCode s = Some c)"
      using fold_add_code_sound [of Map.empty A ?right] by simp
    ultimately show ?thesis
      by (intro exI [of _ "[?e]"] exI [of _ "[cs]"]) simp
  qed
qed

lemma process_line_effect:
  "\<exists>E S cs'. (\<forall>st. process_line lines A m k (st, cs) =
            (st\<lparr>st_employees := st_employees st @ E, st_shifts := fold set_add S (st_shifts st)\<rparr>, cs')) \<and>
         (\<forall>e\<in>set E. shift e = cs \<and> shift e \<in> set S \<and>
            (\<forall>d c. codes e d = Some c \<longrightarrow> 1 \<le> d \<and> d \<le> 31 \<and> (\<exists>s. normalizeCode s = Some c))) \<and>
         (\<not> is_label_line lines k \<longrightarrow> cs' = cs)"
proof -
  let ?line = "sort_key tok_x (lines_get lines k)"
  let ?text = "trim (join_sp (map str ?line))"
  show ?thesis
  proof (cases "is_label_line lines k")
    case True
    then obtain l where l: "detectShiftLabel ?text = Some l" "l \<noteq> []"
      by (auto simp: is_label_line_def split: option.splits)
    then have "\<forall>st. process_line lines A m k (st, cs) =
        (st\<lparr>st_employees := st_employees st @ [], st_shifts := fold set_add [l] (st_shifts st)\<rparr>, l)"
      by (simp add: process_line_def)
    with True show ?thesis by (intro exI [of _ "[]"] exI [of _ "[l]"] exI [of _ l]) simp
  next
    case False
    then have "\<forall>st. process_line lines A m k (st, cs) = process_row A m ?line ?text (st, cs)"
      by (auto simp: process_line_def Let_def is_label_line_def split: option.splits)
    then have eq: "\<And>st. process_line lines A m k (st, cs) = process_row A m ?line ?text (st, cs)"
      by blast
    from process_row_effect [of A m ?line ?text cs] obtain E S where
      r: "\<forall>st. process_row A m ?line ?text (st, cs) =
            (st\<lparr>st_employees := st_employees st @ E, st_shifts := fold set_add S (st_shifts st)\<rparr>, cs)"
         "\<forall>e\<in>set E. shift e = cs \<and> shift e \<in> set S \<and>
            (\<forall>d c. codes e d = Some c \<longrightarrow> 1 \<le> d \<and> d \<le> 31 \<and> (\<exists>s. normalizeCode s = Some c))"
      by blast
    show ?thesis
      apply (rule exI [of _ E])
      apply (rule exI [of _ S])
      apply (rule exI [of _ cs])
      using r by (simp only: eq simp_thms)
  qed
qed

lemma lines_fold_effect:
  "\<exists>E S cs'. (\<forall>st. fold (process_line lines A m) ks (st, cs) =
            (st\<lparr>st_employees := st_employees st @ E, st_shifts := fold set_add S (st_shifts st)\<rparr>, cs')) \<and>
         (\<forall>e\<in>set E. shift e \<in> set S \<and>
            (\<forall>d c. codes e d = Some c \<longrightarrow> 1 \<le> d \<and> d \<le> 31 \<and> (\<exists>s. normalizeCode s = Some c))) \<and>
         ((\<forall>k\<in>set ks. \<not> is_label_line lines k) \<longrightarrow> cs' = cs \<and> (\<forall>e\<in>set E. shift e = cs))"
proof (induction ks arbitrary: cs)
  case Nil
  show ?case by (intro exI [of _ "[]"] exI [of _ cs]) simp
next
  case (Cons k ks)
  from process_line_effect [of lines A m k cs] obtain E1 S1 c1 where
    1: "\<forall>st. process_line lines A m k (st, cs) =
          (st\<lparr>st_employees := st_employees st @ E1, st_shifts := fold set_add S1 (st_shifts st)\<rparr>, c1)"
      "\<forall>e\<in>set E1. shift e = cs \<and> shift e \<in> set S1 \<and>
          (\<forall>d c. codes e d = Some c \<longrightarrow> 1 \<le> d \<and> d \<le> 31 \<and> (\<exists>s. normalizeCode s = Some c))"
      "\<not> is_label_line lines k \<longrightarrow> c1 = cs"
    by blast
  from Cons.IH [of c1] obtain E2 S2 c2 where
    2: "\<forall>st. fold (process_line lines A m) ks (st, c1) =
          (st\<lparr>st_employees := st_employees st @ E2, st_shifts := fold set_add S2 (st_shifts st)\<rparr>, c2)"
      "\<forall>e\<in>set E2. shift e \<in> set S2 \<and>
          (\<forall>d c. codes e d = Some c \<longrightarrow> 1 \<le> d \<and> d \<le> 31 \<and> (\<exists>s. normalizeCode s = Some c))"
      "(\<forall>k\<in>set ks. \<not> is_label_line lines k) \<longrightarrow> c2 = c1 \<and> (\<forall>e\<in>set E2. shift e = c1)"
    by blast
  have "\<forall>st. fold (process_line lines A m) (k # ks) (st, cs) =
      (st\<lparr>st_employees := st_employees st @ (E1 @ E2),
           st_shifts := fold set_add (S1 @ S2) (st_shifts st)\<rparr>, c2)"
    by (simp add: 1(1) 2(1))
  moreover have "\<forall>e\<in>set (E1 @ E2). shift e \<in> set (S1 @ S2) \<and>
      (\<forall>d c. codes e d = Some c \<longrightarrow> 1 \<le> d \<and> d \<le> 31 \<and> (\<exists>s. normalizeCode s = Some c))"
    using 1(2) 2(2) by auto
  moreover have "(\<forall>k'\<in>set (k # ks). \<not> is_label_line lines k') \<longrightarrow>
      c2 = cs \<and> (\<forall>e\<in>set (E1 @ E2). shift e = cs)"
    using 1(2,3) 2(3) by auto
  ultimately show ?case by blast
qed

lemma detect_month_year_frame [simp]:
  "st_employees (detect_month_year txt st) = st_employees st"
  "st_shifts (detect_month_year txt st) = st_shifts st"
  by (auto simp: detect_month_year_def split: option.splits)

lemma process_page_effect:
  "\<exists>E S. (\<forall>st. st_employees (process_page raw st) = st_employees st @ E \<and>
                st_shifts (process_page raw st) = fold set_add S (st_shifts st)) \<and>
         (\<forall>e\<in>set E. shift e \<in> set S \<and>
            (\<forall>d c. codes e d = Some c \<longrightarrow> 1 \<le> d \<and> d \<le> 31 \<and> (\<exists>s. normalizeCode s = Some c)))"
proof (cases "pickBestDayHeaderLine (groupByLine (page_items raw))")
  case None
  then have "\<forall>st. st_employees (process_page raw st) = st_employees st @ [] \<and>
                st_shifts (process_page raw st) = fold set_add [] (st_shifts st)"
    by (simp add: process_page_def Let_def)
  then show ?thesis by (intro exI [of _ "[]"]) simp
next
  case (Some h)
  let ?lines = "groupByLine (page_items raw)"
  let ?A = "map (\<lambda>t. \<lparr>day = Number_digits (str t), anchor_x = tok_x t\<rparr>)
              (sort_key tok_x (filter (\<lambda>t. is_day_number (str t)) h))"
  let ?ks = "sort_key uminus (map fst ?lines)"
  from lines_fold_effect [of ?lines ?A "min_list (map anchor_x ?A)" ?ks "''Unknown''"]
  obtain E S c where
    f: "\<forall>st. fold (process_line ?lines ?A (min_list (map anchor_x ?A))) ?ks (st, ''Unknown'') =
          (st\<lparr>st_employees := st_employees st @ E, st_shifts := fold set_add S (st_shifts st)\<rparr>, c)"
    and p: "\<forall>e\<in>set E. shift e \<in> set S \<and>
          (\<forall>d c. codes e d = Some c \<longrightarrow> 1 \<le> d \<and> d \<le> 31 \<and> (\<exists>s. normalizeCode s = Some c))"
    by blast
  have "\<forall>st. st_employees (process_page raw st) = st_employees st @ E \<and>
                st_shifts (process_page raw st) = fold set_add S (st_shifts st)"
    by (simp add: process_page_def Let_def Some f del: map_map)
  with p show ?thesis by blast
qed

section \<open>Evaluating the sample pages\<close>

lemma tok_sel: "str (tok s x y) = s" "tok_x (tok s x y) = x" "tok_y (tok s x y) = y"
  by (simp_all add: tok_def)

lemma tok_str_update: "(tok s x y)\<lparr>str := s'\<rparr> = tok s' x y"
  by (simp add: tok_def)

lemma startsWith_ci_simps:
  "startsWith_ci s [] = True"
  "startsWith_ci [] (p # ps) = False"
  "startsWith_ci (c # cs) (p # ps) =
     (if upper_char c = upper_char p then startsWith_ci cs ps else False)"
  by (simp_all add: startsWith_ci_def toUpperCase_def)

text \<open>Case mapping, as a table, for the characters of the samples.\<close>

lemma upper_char_table:
  "upper_char CHR ''a'' = CHR ''A''" "upper_char CHR ''b'' = CHR ''B''" "upper_char CHR ''c'' = CHR ''C''"
  "upper_char CHR ''d'' = CHR ''D''" "upper_char CHR ''e'' = CHR ''E''" "upper_char CHR ''f'' = CHR ''F''"
  "upper_char CHR ''g'' = CHR ''G''" "upper_char CHR ''h'' = CHR ''H''" "upper_char CHR ''i'' = CHR ''I''"
  "upper_char CHR ''j'' = CHR ''J''" "upper_char CHR ''k'' = CHR ''K''" "upper_char CHR ''l'' = CHR ''L''"
  "upper_char CHR ''m'' = CHR ''M''" "upper_char CHR ''n'' = CHR ''N''" "upper_char CHR ''o'' = CHR ''O''"
  "upper_char CHR ''p'' = CHR ''P''" "upper_char CHR ''q'' = CHR ''Q''" "upper_char CHR ''r'' = CHR ''R''"
  "upper_char CHR ''s'' = CHR ''S''" "upper_char CHR ''t'' = CHR ''T''" "upper_char CHR ''u'' = CHR ''U''"
  "upper_char CHR ''v'' = CHR ''V''" "upper_char CHR ''w'' = CHR ''W''" "upper_char CHR ''x'' = CHR ''X''"
  "upper_char CHR ''y'' = CHR ''Y''" "upper_char CHR ''z'' = CHR ''Z''" "upper_char CHR ''A'' = CHR ''A''"
  "upper_char CHR ''B'' = CHR ''B''" "upper_char CHR ''C'' = CHR ''C''" "upper_char CHR ''D'' = CHR ''D''"
  "upper_char CHR ''E'' = CHR ''E''" "upper_char CHR ''F'' = CHR ''F''" "upper_char CHR ''G'' = CHR ''G''"
  "upper_char CHR ''H'' = CHR ''H''" "upper_char CHR ''I'' = CHR ''I''" "upper_char CHR ''J'' = CHR ''J''"
  "upper_char CHR ''K'' = CHR ''K''" "upper_char CHR ''L'' = CHR ''L''" "upper_char CHR ''M'' = CHR ''M''"
  "upper_char CHR ''N'' = CHR ''N''" "upper_char CHR ''O'' = CHR ''O''" "upper_char CHR ''P'' = CHR ''P''"
  "upper_char CHR ''Q'' = CHR ''Q''" "upper_char CHR ''R'' = CHR ''R''" "upper_char CHR ''S'' = CHR ''S''"
  "upper_char CHR ''T'' = CHR ''T''" "upper_char CHR ''U'' = CHR ''U''" "upper_char CHR ''V'' = CHR ''V''"
  "upper_char CHR ''W'' = CHR ''W''" "upper_char CHR ''X'' = CHR ''X''" "upper_char CHR ''Y'' = CHR ''Y''"
  "upper_char CHR ''Z'' = CHR ''Z''" "upper_char CHR ''0'' = CHR ''0''" "upper_char CHR ''1'' = CHR ''1''"
  "upper_char CHR ''2'' = CHR ''2''" "upper_char CHR ''3'' = CHR ''3''" "upper_char CHR ''4'' = CHR ''4''"
  "upper_char CHR ''5'' = CHR ''5''" "upper_char CHR ''6'' = CHR ''6''" "upper_char CHR ''7'' = CHR ''7''"
  "upper_char CHR ''8'' = CHR ''8''" "upper_char CHR ''9'' = CHR ''9''" "upper_char CHR '' '' = CHR '' ''"
  "upper_char CHR ''.'' = CHR ''.''" "upper_char CHR ''_'' = CHR ''_''"
  by (simp_all add: upper_char_def)

lemma lower_char_table:
  "lower_char CHR ''a'' = CHR ''a''" "lower_char CHR ''b'' = CHR ''b''" "lower_char CHR ''c'' = CHR ''c''"
  "lower_char CHR ''d'' = CHR ''d''" "lower_char CHR ''e'' = CHR ''e''" "lower_char CHR ''f'' = CHR ''f''"
  "lower_char CHR ''g'' = CHR ''g''" "lower_char CHR ''h'' = CHR ''h''" "lower_char CHR ''i'' = CHR ''i''"
  "lower_char CHR ''j'' = CHR ''j''" "lower_char CHR ''k'' = CHR ''k''" "lower_char CHR ''l'' = CHR ''l''"
  "lower_char CHR ''m'' = CHR ''m''" "lower_char CHR ''n'' = CHR ''n''" "lower_char CHR ''o'' = CHR ''o''"
  "lower_char CHR ''p'' = CHR ''p''" "lower_char CHR ''q'' = CHR ''q''" "lower_char CHR ''r'' = CHR ''r''"
  "lower_char CHR ''s'' = CHR ''s''" "lower_char CHR ''t'' = CHR ''t''" "lower_char CHR ''u'' = CHR ''u''"
  "lower_char CHR ''v'' = CHR ''v''" "lower_char CHR ''w'' = CHR ''w''" "lower_char CHR ''x'' = CHR ''x''"
  "lower_char CHR ''y'' = CHR ''y''" "lower_char CHR ''z'' = CHR ''z''" "lower_char CHR ''A'' = CHR ''a''"
  "lower_char CHR ''B'' = CHR ''b''" "lower_char CHR ''C'' = CHR ''c''" "lower_char CHR ''D'' = CHR ''d''"
  "lower_char CHR ''E'' = CHR ''e''" "lower_char CHR ''F'' = CHR ''f''" "lower_char CHR ''G'' = CHR ''g''"
  "lower_char CHR ''H'' = CHR ''h''" "lower_char CHR ''I'' = CHR ''i''" "lower_char CHR ''J'' = CHR ''j''"
  "lower_char CHR ''K'' = CHR ''k''" "lower_char CHR ''L'' = CHR ''l''" "lower_char CHR ''M'' = CHR ''m''"
  "lower_char CHR ''N'' = CHR ''n''" "lower_char CHR ''O'' = CHR ''o''" "lower_char CHR ''P'' = CHR ''p''"
  "lower_char CHR ''Q'' = CHR ''q''" "lower_char CHR ''R'' = CHR ''r''" "lower_char CHR ''S'' = CHR ''s''"
  "lower_char CHR ''T'' = CHR ''t''" "lower_char CHR ''U'' = CHR ''u''" "lower_char CHR ''V'' = CHR ''v''"
  "lower_char CHR ''W'' = CHR ''w''" "lower_char CHR ''X'' = CHR ''x''" "lower_char CHR ''Y'' = CHR ''y''"
  "lower_char CHR ''Z'' = CHR ''z''" "lower_char CHR ''0'' = CHR ''0''" "lower_char CHR ''1'' = CHR ''1''"
  "lower_char CHR ''2'' = CHR ''2''" "lower_char CHR ''3'' = CHR ''3''" "lower_char CHR ''4'' = CHR ''4''"
  "lower_char CHR ''5'' = CHR ''5''" "lower_char CHR ''6'' = CHR ''6''" "lower_char CHR ''7'' = CHR ''7''"
  "lower_char CHR ''8'' = CHR ''8''" "lower_char CHR ''9'' = CHR ''9''" "lower_char CHR '' '' = CHR '' ''"
  "lower_char CHR ''.'' = CHR ''.''" "lower_char CHR ''_'' = CHR ''_''"
  by (simp_all add: lower_char_def)

lemmas text_eval =
  trim_def is_space_def is_line_terminator_def is_digit_def is_alpha_def is_upper_def
  is_lower_def is_word_def toUpperCase_def toLowerCase_def upper_char_table lower_char_table
  startsWith_ci_simps is_day_number_def

lemma round_half_int: "\<lfloor>(of_int n :: rat) / 2 + 1 / 2\<rfloor> = (n + 1) div 2"
proof -
  have "(of_int n :: rat) / 2 + 1 / 2 = of_int (n + 1) / of_int 2"
    by (simp add: add_divide_distrib)
  then show ?thesis by (simp only: floor_divide_of_int_eq)
qed

lemma yKey_of_tok: "yKey_of (tok s x (of_int n)) = (n + 1) div 2 * 2"
  by (simp add: yKey_of_def tok_def round_half_int)

lemma yKey_of_sample:
  "yKey_of (tok s x 700) = 700" "yKey_of (tok s x 680) = 680" "yKey_of (tok s x 660) = 660"
  "yKey_of (tok s x 400) = 400"
  using yKey_of_tok [of s x 700] yKey_of_tok [of s x 680] yKey_of_tok [of s x 660]
    yKey_of_tok [of s x 400]
  by simp_all

lemma page_items_append: "page_items (a @ b) = page_items a @ page_items b"
  by (simp add: page_items_def)

lemma page_items_header_row: "page_items (header_row y) = header_row y"
  by (simp add: page_items_def header_row_def tok_str_update tok_sel trim_def is_space_def)

lemma day_count_header: "day_count (header_row y) = 20"
  by (simp add: day_count_def header_row_def tok_sel is_day_number_def is_digit_def)

lemma filter_days_header: "filter (\<lambda>t. is_day_number (str t)) (header_row y) = header_row y"
  by (simp add: header_row_def tok_sel is_day_number_def is_digit_def)

lemma groupByLine_append:
  "groupByLine (a @ b) = fold (\<lambda>it m. map_push (yKey_of it) it m) b (groupByLine a)"
  by (simp add: groupByLine_def)

lemma groupByLine_header_row: "groupByLine (header_row 700) = [(700, header_row 700)]"
  by (simp add: groupByLine_def header_row_def yKey_of_sample)

lemma sort_header_row: "sort_key tok_x (header_row y) = header_row y"
  by (simp add: header_row_def tok_sel)

lemma header_text: "join_sp (map str (header_row y)) = ''1 2 3 4 5 6 7 8 9 10 11 12 13 14 15 16 17 18 19 20''"
  by (simp add: header_row_def tok_sel)

lemma header_anchors:
  "map (\<lambda>t. \<lparr>day = Number_digits (str t), anchor_x = tok_x t\<rparr>) (header_row y) =
     [\<lparr>day = 1, anchor_x = 100\<rparr>, \<lparr>day = 2, anchor_x = 120\<rparr>, \<lparr>day = 3, anchor_x = 140\<rparr>, \<lparr>day = 4, anchor_x = 160\<rparr>,
      \<lparr>day = 5, anchor_x = 180\<rparr>, \<lparr>day = 6, anchor_x = 200\<rparr>, \<lparr>day = 7, anchor_x = 220\<rparr>, \<lparr>day = 8, anchor_x = 240\<rparr>,
      \<lparr>day = 9, anchor_x = 260\<rparr>, \<lparr>day = 10, anchor_x = 280\<rparr>, \<lparr>day = 11, anchor_x = 300\<rparr>, \<lparr>day = 12, anchor_x = 320\<rparr>,
      \<lparr>day = 13, anchor_x = 340\<rparr>, \<lparr>day = 14, anchor_x = 360\<rparr>, \<lparr>day = 15, anchor_x = 380\<rparr>, \<lparr>day = 16, anchor_x = 400\<rparr>,
      \<lparr>day = 17, anchor_x = 420\<rparr>, \<lparr>day = 18, anchor_x = 440\<rparr>, \<lparr>day = 19, anchor_x = 460\<rparr>, \<lparr>day = 20, anchor_x = 480\<rparr>]"
  by (simp add: header_row_def tok_sel Number_digits_def digit_val_def)

lemma header_no_label: "detectShiftLabel ''1 2 3 4 5 6 7 8 9 10 11 12 13 14 15 16 17 18 19 20'' = None"
  by (simp add: detectShiftLabel_def match_shift_def direct_labels_def text_eval)

lemma header_is_noise: "isNonEmployeeLine ''1 2 3 4 5 6 7 8 9 10 11 12 13 14 15 16 17 18 19 20''"
  by (simp add: isNonEmployeeLine_def digit_run_def text_eval)

text \<open>The header line of a sample page changes nothing.\<close>

lemma process_header_line:
  assumes "lines_get lines k = header_row y"
  shows "process_line lines A m k (st, cs) = (st, cs)"
proof -
  have "trim ''1 2 3 4 5 6 7 8 9 10 11 12 13 14 15 16 17 18 19 20'' = ''1 2 3 4 5 6 7 8 9 10 11 12 13 14 15 16 17 18 19 20''"
    by (simp add: trim_def is_space_def)
  then show ?thesis
    by (simp add: process_line_def process_row_def assms sort_header_row header_text
        header_no_label header_is_noise)
qed


lemma header_day_anchors:
  "map (\<lambda>t. \<lparr>day = Number_digits (str t), anchor_x = tok_x t\<rparr>) (header_row y) = sample_anchors"
  by (simp add: header_anchors sample_anchors_def)

lemma min_sample_anchors: "min_list (map anchor_x sample_anchors) = 100"
  by (simp add: sample_anchors_def)

lemma nearestDay_sample:
  "nearestDay 100 sample_anchors = Some 1" "nearestDay 120 sample_anchors = Some 2"
  by (simp_all add: nearestDay_def sample_anchors_def nearest_step_apply)

lemma normalizeCode_sample: "normalizeCode ''FG'' = Some ''FG''" "normalizeCode ''DM'' = Some ''DM''"
  by (simp_all add: normalizeCode_def month_names_def code_pattern1_def code_pattern2_def text_eval)

lemma page_two_lines:
  "groupByLine (page_items page_two) =
     [(700, header_row 700), (680, [tok ''BOB'' 10 680, tok ''DM'' 120 680])]"
proof -
  have "page_items page_two = page_two"
    by (simp add: page_two_def page_items_append page_items_header_row)
       (simp add: page_items_def tok_str_update tok_sel trim_def is_space_def)
  then show ?thesis
    by (simp add: page_two_def groupByLine_append groupByLine_header_row yKey_of_sample)
qed

lemma page_one_lines:
  "groupByLine (page_items page_one) =
     [(700, header_row 700), (680, [tok ''SHIFT B'' 10 680]),
      (660, [tok ''ANA'' 10 660, tok ''FG'' 100 660])]"
proof -
  have "page_items page_one = page_one"
    by (simp add: page_one_def page_items_append page_items_header_row)
       (simp add: page_items_def tok_str_update tok_sel trim_def is_space_def)
  then show ?thesis
    by (simp add: page_one_def groupByLine_append groupByLine_header_row yKey_of_sample)
qed

lemma page_two_text:
  "join_sp (map str (page_items page_two)) = ''1 2 3 4 5 6 7 8 9 10 11 12 13 14 15 16 17 18 19 20 BOB DM''"
proof -
  have "page_items page_two = page_two"
    by (simp add: page_two_def page_items_append page_items_header_row)
       (simp add: page_items_def tok_str_update tok_sel trim_def is_space_def)
  then show ?thesis
    by (simp add: page_two_def header_row_def tok_sel)
qed

lemma page_one_text:
  "join_sp (map str (page_items page_one)) = ''1 2 3 4 5 6 7 8 9 10 11 12 13 14 15 16 17 18 19 20 SHIFT B ANA FG''"
proof -
  have "page_items page_one = page_one"
    by (simp add: page_one_def page_items_append page_items_header_row)
       (simp add: page_items_def tok_str_update tok_sel trim_def is_space_def)
  then show ?thesis
    by (simp add: page_one_def header_row_def tok_sel)
qed

lemma sample_no_month:
  "match_month_year ''1 2 3 4 5 6 7 8 9 10 11 12 13 14 15 16 17 18 19 20 BOB DM'' = None"
  "match_month_year ''1 2 3 4 5 6 7 8 9 10 11 12 13 14 15 16 17 18 19 20 SHIFT B ANA FG'' = None"
  by (simp_all add: match_month_year_def month_here_def month_names_def text_eval)


lemma pick_page_two:
  "pickBestDayHeaderLine [(700, header_row 700), (680, [tok ''BOB'' 10 680, tok ''DM'' 120 680])] =
     Some (header_row 700)"
  by (simp add: pickBestDayHeaderLine_def header_step_apply day_count_header)
     (simp add: day_count_def tok_sel is_day_number_def)

lemma pick_page_one:
  "pickBestDayHeaderLine
     [(700, header_row 700), (680, [tok ''SHIFT B'' 10 680]),
      (660, [tok ''ANA'' 10 660, tok ''FG'' 100 660])] = Some (header_row 700)"
  by (simp add: pickBestDayHeaderLine_def header_step_apply day_count_header)
     (simp add: day_count_def tok_sel is_day_number_def)

lemma label_line_sample:
  assumes "lines_get lines k = [tok ''SHIFT B'' 10 680]"
  shows "process_line lines A m k (st, cs) =
           (st\<lparr>st_shifts := set_add ''B'' (st_shifts st)\<rparr>, ''B'')"
proof -
  have "detectShiftLabel ''SHIFT B'' = Some ''B''"
    by (simp add: detectShiftLabel_def match_shift_def text_eval)
  moreover have "trim ''SHIFT B'' = ''SHIFT B''"
    by (simp add: trim_def is_space_def)
  ultimately show ?thesis
    by (simp add: process_line_def assms tok_sel)
qed

lemma row_text_facts:
  "detectShiftLabel ''BOB DM'' = None" "detectShiftLabel ''ANA FG'' = None"
  "\<not> isNonEmployeeLine ''BOB DM''" "\<not> isNonEmployeeLine ''ANA FG''"
  "looksLikeEmployeeName ''BOB''" "looksLikeEmployeeName ''ANA''"
  "cleanEmployeeName ''BOB'' = ''BOB''" "cleanEmployeeName ''ANA'' = ''ANA''"
  "trim ''BOB DM'' = ''BOB DM''" "trim ''ANA FG'' = ''ANA FG''"
  "trim ''BOB'' = ''BOB''" "trim ''ANA'' = ''ANA''"
  by (simp_all add: detectShiftLabel_def match_shift_def direct_labels_def isNonEmployeeLine_def
      digit_run_def looksLikeEmployeeName_def starts_word_ci_def cleanEmployeeName_def
      tail_match_def is_num_or_fe_def text_eval)

lemma bob_row:
  assumes "lines_get lines k = [tok ''BOB'' 10 680, tok ''DM'' 120 680]"
  shows "process_line lines sample_anchors 100 k (st, cs) =
     (st\<lparr>st_employees := st_employees st @
            [\<lparr>name = ''BOB'', shift = cs, codes = [2 \<mapsto> ''DM'']\<rparr>],
          st_shifts := set_add cs (st_shifts st)\<rparr>, cs)"
  by (simp add: process_line_def process_row_def assms tok_sel row_text_facts add_code_def
      normalizeCode_sample nearestDay_sample)

lemma ana_row:
  assumes "lines_get lines k = [tok ''ANA'' 10 660, tok ''FG'' 100 660]"
  shows "process_line lines sample_anchors 100 k (st, cs) =
     (st\<lparr>st_employees := st_employees st @
            [\<lparr>name = ''ANA'', shift = cs, codes = [1 \<mapsto> ''FG'']\<rparr>],
          st_shifts := set_add cs (st_shifts st)\<rparr>, cs)"
  by (simp add: process_line_def process_row_def assms tok_sel row_text_facts add_code_def
      normalizeCode_sample nearestDay_sample)

lemma process_page_two:
  "process_page page_two st =
     st\<lparr>st_employees := st_employees st @
          [\<lparr>name = ''BOB'', shift = ''Unknown'', codes = [2 \<mapsto> ''DM'']\<rparr>],
        st_shifts := set_add ''Unknown'' (st_shifts st)\<rparr>"
proof -
  let ?lines = "[(700, header_row 700), (680, [tok ''BOB'' 10 680, tok ''DM'' 120 680])]"
  have g: "lines_get ?lines 700 = header_row 700"
    "lines_get ?lines 680 = [tok ''BOB'' 10 680, tok ''DM'' 120 680]"
    by (simp_all add: lines_get_def)
  have d: "detect_month_year ''1 2 3 4 5 6 7 8 9 10 11 12 13 14 15 16 17 18 19 20 BOB DM'' st = st"
    by (simp add: detect_month_year_def sample_no_month)
  show ?thesis
    by (simp add: process_page_def Let_def page_two_lines page_two_text pick_page_two d
        filter_days_header sort_header_row header_day_anchors min_sample_anchors
        process_header_line [OF g(1)] bob_row [OF g(2)] del: map_map)
qed

lemma process_page_one:
  "process_page page_one st =
     st\<lparr>st_employees := st_employees st @
          [\<lparr>name = ''ANA'', shift = ''B'', codes = [1 \<mapsto> ''FG'']\<rparr>],
        st_shifts := set_add ''B'' (set_add ''B'' (st_shifts st))\<rparr>"
proof -
  let ?lines = "[(700, header_row 700), (680, [tok ''SHIFT B'' 10 680]),
      (660, [tok ''ANA'' 10 660, tok ''FG'' 100 660])]"
  have g: "lines_get ?lines 700 = header_row 700"
    "lines_get ?lines 680 = [tok ''SHIFT B'' 10 680]"
    "lines_get ?lines 660 = [tok ''ANA'' 10 660, tok ''FG'' 100 660]"
    by (simp_all add: lines_get_def)
  have d: "detect_month_year ''1 2 3 4 5 6 7 8 9 10 11 12 13 14 15 16 17 18 19 20 SHIFT B ANA FG'' st = st"
    by (simp add: detect_month_year_def sample_no_month)
  show ?thesis
    by (simp add: process_page_def Let_def page_one_lines page_one_text pick_page_one d
        filter_days_header sort_header_row header_day_anchors min_sample_anchors
        process_header_line [OF g(1)] label_line_sample [OF g(2)] ana_row [OF g(3)] del: map_map)
qed

lemma sample_document:
  "employees (parseSchedulePDF today [page_one, page_two]) =
     [\<lparr>name = ''ANA'', shift = ''B'', codes = [1 \<mapsto> ''FG'']\<rparr>,
      \<lparr>name = ''BOB'', shift = ''Unknown'', codes = [2 \<mapsto> ''DM'']\<rparr>]"
  "shifts (parseSchedulePDF today [page_one, page_two]) = [''B'', ''Unknown'']"
  by (simp_all add: parseSchedulePDF_def finish_def process_page_one process_page_two
      init_state_def set_add_def)

lemma cover_page_header:
  "page_items cover_page = cover_page"
  "pickBestDayHeaderLine (groupByLine (page_items cover_page)) = None"
  "join_sp (map str (page_items cover_page)) = ''MONTHLY SCHEDULE January 2024''"
proof -
  show 1: "page_items cover_page = cover_page"
    by (simp add: cover_page_def page_items_def tok_str_update tok_sel trim_def is_space_def)
  show "pickBestDayHeaderLine (groupByLine (page_items cover_page)) = None"
    unfolding 1
    by (simp add: cover_page_def groupByLine_def pickBestDayHeaderLine_def header_step_apply
        day_count_def tok_sel is_day_number_def)
  show "join_sp (map str (page_items cover_page)) = ''MONTHLY SCHEDULE January 2024''"
    unfolding 1 by (simp add: cover_page_def tok_sel)
qed

lemma cover_page_month:
  "match_month_year ''MONTHLY SCHEDULE January 2024'' = Some (''January'', ''2024'')"
  "Number_digits ''2024'' = 2024" "monthNameToNumber ''January'' = Some 1"
  by (simp_all add: match_month_year_def month_here_def month_names_def Number_digits_def
      digit_val_def monthNameToNumber_def text_eval)

lemma year_zero_page_header:
  "page_items year_zero_page = year_zero_page"
  "pickBestDayHeaderLine (groupByLine (page_items year_zero_page)) = None"
  "join_sp (map str (page_items year_zero_page)) = ''May 0000''"
proof -
  show 1: "page_items year_zero_page = year_zero_page"
    by (simp add: year_zero_page_def page_items_def tok_str_update tok_sel trim_def is_space_def)
  show "pickBestDayHeaderLine (groupByLine (page_items year_zero_page)) = None"
    unfolding 1
    by (simp add: year_zero_page_def groupByLine_def pickBestDayHeaderLine_def header_step_apply
        day_count_def tok_sel is_day_number_def)
  show "join_sp (map str (page_items year_zero_page)) = ''May 0000''"
    unfolding 1 by (simp add: year_zero_page_def tok_sel)
qed

lemma year_zero_page_month:
  "match_month_year ''May 0000'' = Some (''May'', ''0000'')"
  "Number_digits ''0000'' = 0" "monthNameToNumber ''May'' = Some 5"
  by (simp_all add: match_month_year_def month_here_def month_names_def Number_digits_def
      digit_val_def monthNameToNumber_def text_eval)

section \<open>The parser: properties\<close>

lemma process_page_shift_inv:
  assumes "\<forall>e\<in>set (st_employees st). shift e \<in> set (st_shifts st)"
  shows "\<forall>e\<in>set (st_employees (process_page raw st)). shift e \<in> set (st_shifts (process_page raw st))"
proof -
  from process_page_effect [of raw] obtain E S where
    "\<forall>st. st_employees (process_page raw st) = st_employees st @ E \<and>
          st_shifts (process_page raw st) = fold set_add S (st_shifts st)"
    "\<forall>e\<in>set E. shift e \<in> set S"
    by blast
  with assms show ?thesis by auto
qed

lemma fold_pages_shift_inv:
  "\<forall>e\<in>set (st_employees st). shift e \<in> set (st_shifts st) \<Longrightarrow>
   \<forall>e\<in>set (st_employees (fold process_page pages st)).
      shift e \<in> set (st_shifts (fold process_page pages st))"
proof (induction pages arbitrary: st)
  case Nil
  then show ?case by simp
next
  case (Cons p ps)
  from Cons.IH [OF process_page_shift_inv [OF Cons.prems, of p]] show ?case by simp
qed

lemma process_page_codes_inv:
  assumes "\<forall>e\<in>set (st_employees st). \<forall>d c. codes e d = Some c \<longrightarrow>
             1 \<le> d \<and> d \<le> 31 \<and> (\<exists>s. normalizeCode s = Some c)"
  shows "\<forall>e\<in>set (st_employees (process_page raw st)). \<forall>d c. codes e d = Some c \<longrightarrow>
           1 \<le> d \<and> d \<le> 31 \<and> (\<exists>s. normalizeCode s = Some c)"
proof -
  from process_page_effect [of raw] obtain E S where
    "\<forall>st. st_employees (process_page raw st) = st_employees st @ E \<and>
          st_shifts (process_page raw st) = fold set_add S (st_shifts st)"
    "\<forall>e\<in>set E. \<forall>d c. codes e d = Some c \<longrightarrow> 1 \<le> d \<and> d \<le> 31 \<and> (\<exists>s. normalizeCode s = Some c)"
    by blast
  with assms show ?thesis by auto
qed

lemma fold_pages_codes_inv:
  "\<forall>e\<in>set (st_employees st). \<forall>d c. codes e d = Some c \<longrightarrow>
      1 \<le> d \<and> d \<le> 31 \<and> (\<exists>s. normalizeCode s = Some c) \<Longrightarrow>
   \<forall>e\<in>set (st_employees (fold process_page pages st)). \<forall>d c. codes e d = Some c \<longrightarrow>
      1 \<le> d \<and> d \<le> 31 \<and> (\<exists>s. normalizeCode s = Some c)"
proof (induction pages arbitrary: st)
  case Nil
  then show ?case by simp
next
  case (Cons p ps)
  from Cons.IH [OF process_page_codes_inv [OF Cons.prems, of p]] show ?case by simp
qed

lemma result_fields:
  "employees (parseSchedulePDF now pages) = st_employees (fold process_page pages init_state)"
  "shifts (parseSchedulePDF now pages) = st_shifts (fold process_page pages init_state)"
  by (simp_all add: parseSchedulePDF_def finish_def)

lemma process_page_with_header:
  assumes "pickBestDayHeaderLine (groupByLine (page_items raw)) = Some h"
  shows "process_page raw st =
           fst (fold (process_line (groupByLine (page_items raw)) (day_anchors_of h)
                        (min_list (map anchor_x (day_anchors_of h))))
                  (page_yKeys raw)
                  (detect_month_year (join_sp (map str (page_items raw))) st, ''Unknown''))"
  using assms by (simp add: process_page_def Let_def day_anchors_of_def page_yKeys_def del: map_map)

lemma process_row_count:
  "\<exists>E S. (\<forall>st. process_row A m line text (st, cs) =
            (st\<lparr>st_employees := st_employees st @ E, st_shifts := fold set_add S (st_shifts st)\<rparr>, cs)) \<and>
         map shift E =
           replicate (if \<not> isNonEmployeeLine text \<and>
                         looksLikeEmployeeName
                           (trim (join_sp (map str (filter (\<lambda>t. tok_x t < m - 12) line))))
                      then 1 else 0) cs"
proof -
  let ?left = "filter (\<lambda>t. tok_x t < m - 12) line"
  let ?right = "filter (\<lambda>t. tok_x t \<ge> m - 12) line"
  let ?leftText = "trim (join_sp (map str ?left))"
  let ?e = "\<lparr>name = cleanEmployeeName ?leftText, shift = cs,
             codes = fold (add_code A) ?right Map.empty\<rparr>"
  show ?thesis
  proof (cases "isNonEmployeeLine text \<or> \<not> looksLikeEmployeeName ?leftText")
    case True
    then have "\<forall>st. process_row A m line text (st, cs) =
        (st\<lparr>st_employees := st_employees st @ [], st_shifts := fold set_add [] (st_shifts st)\<rparr>, cs)"
      by (auto simp: process_row_def)
    with True show ?thesis by (intro exI [of _ "[]"]) auto
  next
    case False
    then have "\<forall>st. process_row A m line text (st, cs) =
        (st\<lparr>st_employees := st_employees st @ [?e], st_shifts := fold set_add [cs] (st_shifts st)\<rparr>, cs)"
      by (simp add: process_row_def Let_def)
    with False show ?thesis
      by (intro exI [of _ "[?e]"] exI [of _ "[cs]"]) simp
  qed
qed

lemma process_line_count:
  assumes "\<not> is_label_line lines k"
  shows "\<exists>E S. (\<forall>st. process_line lines A m k (st, cs) =
            (st\<lparr>st_employees := st_employees st @ E, st_shifts := fold set_add S (st_shifts st)\<rparr>, cs)) \<and>
         map shift E = replicate (if is_employee_line lines m k then 1 else 0) cs"
proof -
  let ?line = "sort_key tok_x (lines_get lines k)"
  let ?text = "trim (join_sp (map str ?line))"
  from assms have eq: "\<And>st. process_line lines A m k (st, cs) = process_row A m ?line ?text (st, cs)"
    by (auto simp: process_line_def Let_def is_label_line_def split: option.splits)
  have r: "is_employee_line lines m k \<longleftrightarrow>
      \<not> isNonEmployeeLine ?text \<and>
      looksLikeEmployeeName (trim (join_sp (map str (filter (\<lambda>t. tok_x t < m - 12) ?line))))"
    using assms by (simp add: is_employee_line_def Let_def)
  from process_row_count [of A m ?line ?text cs] show ?thesis
    unfolding r by (simp only: eq)
qed

lemma lines_fold_count:
  assumes "\<forall>k\<in>set ks. \<not> is_label_line lines k"
  shows "\<exists>E S. (\<forall>st. fold (process_line lines A m) ks (st, cs) =
            (st\<lparr>st_employees := st_employees st @ E, st_shifts := fold set_add S (st_shifts st)\<rparr>, cs)) \<and>
         map shift E = replicate (length (filter (is_employee_line lines m) ks)) cs"
  using assms
proof (induction ks)
  case Nil
  show ?case by (intro exI [of _ "[]"]) simp
next
  case (Cons k ks)
  from Cons.prems have nk: "\<not> is_label_line lines k" by simp
  from process_line_count [OF nk, of A m cs] obtain E1 S1 where
    1: "\<forall>st. process_line lines A m k (st, cs) =
          (st\<lparr>st_employees := st_employees st @ E1, st_shifts := fold set_add S1 (st_shifts st)\<rparr>, cs)"
       "map shift E1 = replicate (if is_employee_line lines m k then 1 else 0) cs"
    by blast
  from Cons.IH Cons.prems obtain E2 S2 where
    2: "\<forall>st. fold (process_line lines A m) ks (st, cs) =
          (st\<lparr>st_employees := st_employees st @ E2, st_shifts := fold set_add S2 (st_shifts st)\<rparr>, cs)"
       "map shift E2 = replicate (length (filter (is_employee_line lines m) ks)) cs"
    by auto
  have "\<forall>st. fold (process_line lines A m) (k # ks) (st, cs) =
      (st\<lparr>st_employees := st_employees st @ (E1 @ E2),
           st_shifts := fold set_add (S1 @ S2) (st_shifts st)\<rparr>, cs)"
    by (simp add: 1(1) 2(1))
  moreover have "map shift (E1 @ E2) =
      replicate (length (filter (is_employee_line lines m) (k # ks))) cs"
    using 1(2) 2(2) by (simp add: replicate_add [symmetric] del: replicate_add)
  ultimately show ?case by blast
qed

lemma page_leading_rows:
  assumes h: "pickBestDayHeaderLine (groupByLine (page_items raw)) = Some h"
    and nl: "\<forall>k\<in>set (take n (page_yKeys raw)). \<not> is_label_line (groupByLine (page_items raw)) k"
  shows "map shift (take (length (rows_before raw h n))
                      (drop (length (st_employees st)) (st_employees (process_page raw st)))) =
           replicate (length (rows_before raw h n)) ''Unknown''"
proof -
  let ?lines = "groupByLine (page_items raw)"
  let ?A = "day_anchors_of h"
  let ?m = "min_list (map anchor_x ?A)"
  let ?ks = "page_yKeys raw"
  let ?st1 = "detect_month_year (join_sp (map str (page_items raw))) st"
  from lines_fold_count [OF nl, of ?A ?m "''Unknown''"] obtain E1 S1 where
    1: "\<forall>st. fold (process_line ?lines ?A ?m) (take n ?ks) (st, ''Unknown'') =
          (st\<lparr>st_employees := st_employees st @ E1, st_shifts := fold set_add S1 (st_shifts st)\<rparr>,
           ''Unknown'')"
       "map shift E1 = replicate (length (filter (is_employee_line ?lines ?m) (take n ?ks))) ''Unknown''"
    by blast
  from lines_fold_effect [of ?lines ?A ?m "drop n ?ks" "''Unknown''"] obtain E2 S2 c2 where
    2: "\<forall>st. fold (process_line ?lines ?A ?m) (drop n ?ks) (st, ''Unknown'') =
          (st\<lparr>st_employees := st_employees st @ E2, st_shifts := fold set_add S2 (st_shifts st)\<rparr>, c2)"
    by blast
  have "fold (process_line ?lines ?A ?m) ?ks (?st1, ''Unknown'') =
      fold (process_line ?lines ?A ?m) (drop n ?ks)
        (fold (process_line ?lines ?A ?m) (take n ?ks) (?st1, ''Unknown''))"
    by (metis append_take_drop_id fold_append comp_apply)
  then have e: "st_employees (process_page raw st) = st_employees st @ E1 @ E2"
    by (simp add: process_page_with_header [OF h] 1(1) 2(1))
  have l: "length E1 = length (rows_before raw h n)"
    using 1(2) by (metis length_map length_replicate rows_before_def)
  have "take (length (rows_before raw h n))
          (drop (length (st_employees st)) (st_employees (process_page raw st))) = E1"
    by (simp add: e l [symmetric])
  then show ?thesis
    using 1(2) by (simp only: rows_before_def)
qed

text \<open>
  C1, as amended. The current shift does not carry across a page boundary. The employees
  a page adds to the list (names, shifts and codes) are the ones it adds to the empty
  start state: they do not depend on the pages before it. On a page with a header, as long
  as none of the first \<open>n\<close> lines is a shift label, the employee rows among them are the
  first employees the page adds, and each is assigned the shift \<open>Unknown\<close>, whatever the
  accumulators held and whatever shift the page before ended in. The same is said of the
  loop over the lines by itself: started from \<open>Unknown\<close>, it stays at \<open>Unknown\<close> and adds
  only employees of shift \<open>Unknown\<close> until it meets a label.
\<close>

theorem shift_restarts_on_each_page:
  "st_employees (process_page raw st) = st_employees st @ st_employees (process_page raw init_state) \<and>
   (\<forall>h n. pickBestDayHeaderLine (groupByLine (page_items raw)) = Some h \<longrightarrow>
      (\<forall>k\<in>set (take n (page_yKeys raw)). \<not> is_label_line (groupByLine (page_items raw)) k) \<longrightarrow>
      map shift (take (length (rows_before raw h n))
                   (drop (length (st_employees st)) (st_employees (process_page raw st)))) =
        replicate (length (rows_before raw h n)) ''Unknown'') \<and>
   ((\<forall>k\<in>set ks. \<not> is_label_line lines k) \<longrightarrow>
      snd (fold (process_line lines A m) ks (init_state, ''Unknown'')) = ''Unknown'' \<and>
      (\<forall>e\<in>set (st_employees (fst (fold (process_line lines A m) ks (init_state, ''Unknown'')))).
         shift e = ''Unknown''))"
proof -
  from process_page_effect [of raw] obtain E S where
    "\<forall>st. st_employees (process_page raw st) = st_employees st @ E \<and>
          st_shifts (process_page raw st) = fold set_add S (st_shifts st)"
    by blast
  then have 1: "st_employees (process_page raw st) =
      st_employees st @ st_employees (process_page raw init_state)"
    by (simp add: init_state_def)
  from lines_fold_effect [of lines A m ks "''Unknown''"] obtain E' S' c' where
    f: "\<forall>st. fold (process_line lines A m) ks (st, ''Unknown'') =
         (st\<lparr>st_employees := st_employees st @ E', st_shifts := fold set_add S' (st_shifts st)\<rparr>, c')"
    and u: "(\<forall>k\<in>set ks. \<not> is_label_line lines k) \<longrightarrow>
         c' = ''Unknown'' \<and> (\<forall>e\<in>set E'. shift e = ''Unknown'')"
    by blast
  have 2: "(\<forall>k\<in>set ks. \<not> is_label_line lines k) \<longrightarrow>
      snd (fold (process_line lines A m) ks (init_state, ''Unknown'')) = ''Unknown'' \<and>
      (\<forall>e\<in>set (st_employees (fst (fold (process_line lines A m) ks (init_state, ''Unknown'')))).
         shift e = ''Unknown'')"
    using u by (simp add: f init_state_def)
  have 3: "\<forall>h n. pickBestDayHeaderLine (groupByLine (page_items raw)) = Some h \<longrightarrow>
      (\<forall>k\<in>set (take n (page_yKeys raw)). \<not> is_label_line (groupByLine (page_items raw)) k) \<longrightarrow>
      map shift (take (length (rows_before raw h n))
                   (drop (length (st_employees st)) (st_employees (process_page raw st)))) =
        replicate (length (rows_before raw h n)) ''Unknown''"
    using page_leading_rows by blast
  from 1 3 2 show ?thesis by blast
qed

lemma page_two_leading_rows:
  "pickBestDayHeaderLine (groupByLine (page_items page_two)) = Some (header_row 700)"
  "page_yKeys page_two = [700, 680]"
  "\<not> is_label_line (groupByLine (page_items page_two)) 700"
  "\<not> is_label_line (groupByLine (page_items page_two)) 680"
  "rows_before page_two (header_row 700) 2 = [680]"
proof -
  let ?lines = "[(700, header_row 700), (680, [tok ''BOB'' 10 680, tok ''DM'' 120 680])]"
  have g: "lines_get ?lines 700 = header_row 700"
    "lines_get ?lines 680 = [tok ''BOB'' 10 680, tok ''DM'' 120 680]"
    by (simp_all add: lines_get_def)
  have t: "trim ''1 2 3 4 5 6 7 8 9 10 11 12 13 14 15 16 17 18 19 20'' = ''1 2 3 4 5 6 7 8 9 10 11 12 13 14 15 16 17 18 19 20''"
    by (simp add: trim_def is_space_def)
  show "pickBestDayHeaderLine (groupByLine (page_items page_two)) = Some (header_row 700)"
    by (simp add: page_two_lines pick_page_two)
  show k: "page_yKeys page_two = [700, 680]"
    by (simp add: page_yKeys_def page_two_lines)
  show l1: "\<not> is_label_line (groupByLine (page_items page_two)) 700"
    by (simp add: page_two_lines is_label_line_def g sort_header_row header_text t header_no_label)
  show l2: "\<not> is_label_line (groupByLine (page_items page_two)) 680"
    by (simp add: page_two_lines is_label_line_def g tok_sel row_text_facts)
  have a: "day_anchors_of (header_row 700) = sample_anchors"
    by (simp add: day_anchors_of_def filter_days_header sort_header_row header_day_anchors)
  have r1: "\<not> is_employee_line (groupByLine (page_items page_two)) 100 700"
    using l1 by (simp add: is_employee_line_def page_two_lines g sort_header_row header_text t
        header_is_noise)
  have r2: "is_employee_line (groupByLine (page_items page_two)) 100 680"
    using l2 by (simp add: is_employee_line_def page_two_lines g tok_sel row_text_facts)
  have "take 2 [700, 680 :: int] = [700, 680]"
    by simp
  then show "rows_before page_two (header_row 700) 2 = [680]"
    by (simp add: rows_before_def a min_sample_anchors k r1 r2)
qed

theorem shift_restarts_on_each_page_witness:
  "pickBestDayHeaderLine (groupByLine (page_items page_two)) = Some (header_row 700) \<and>
   rows_before page_two (header_row 700) 2 = [680] \<and>
   map shift (st_employees (process_page page_one init_state)) = [''B''] \<and>
   map shift (take (length (rows_before page_two (header_row 700) 2))
                (drop (length (st_employees (process_page page_one init_state)))
                   (st_employees (process_page page_two (process_page page_one init_state))))) =
     [''Unknown''] \<and>
   st_employees (process_page page_two (process_page page_one init_state)) =
     st_employees (process_page page_one init_state) @ st_employees (process_page page_two init_state)"
proof -
  note t = shift_restarts_on_each_page [of page_two "process_page page_one init_state"]
  have nl: "\<forall>k\<in>set (take 2 (page_yKeys page_two)).
      \<not> is_label_line (groupByLine (page_items page_two)) k"
    by (simp add: page_two_leading_rows(2,3,4))
  from t have "map shift (take (length (rows_before page_two (header_row 700) 2))
                (drop (length (st_employees (process_page page_one init_state)))
                   (st_employees (process_page page_two (process_page page_one init_state))))) =
     replicate (length (rows_before page_two (header_row 700) 2)) ''Unknown''"
    using page_two_leading_rows(1) nl by blast
  moreover have "map shift (st_employees (process_page page_one init_state)) = [''B'']"
    by (simp add: process_page_one init_state_def)
  moreover from t have "st_employees (process_page page_two (process_page page_one init_state)) =
     st_employees (process_page page_one init_state) @ st_employees (process_page page_two init_state)"
    by blast
  ultimately show ?thesis
    using page_two_leading_rows(1) by (simp add: page_two_leading_rows(5))
qed

text \<open>
  The claim as it was stated fails on the two sample pages. Page one has the label
  \<open>SHIFT B\<close> and the row of ANA below it; page two starts with the row of BOB, before any
  label. BOB is assigned \<open>Unknown\<close>, not the shift B that was current at the end of page
  one.
\<close>

theorem shift_not_carried_counterexample:
  "map name (employees (parseSchedulePDF today [page_one, page_two])) = [''ANA'', ''BOB''] \<and>
   map shift (employees (parseSchedulePDF today [page_one, page_two])) = [''B'', ''Unknown'']"
  by (simp add: sample_document)

text \<open>
  C2. The year found in the text is stored as a number and tested for truth, so the year
  \<open>0000\<close> counts as not found. On a document whose only page reads \<open>May 0000\<close>, parsed
  on a day of November 2026, the result has the month of the text, 5, and the year of the
  system date, 2026: a detected month with a fallback year.
\<close>

theorem year_zero_mixes_month_and_year:
  "month (parseSchedulePDF today [year_zero_page]) = 5 \<and>
   year (parseSchedulePDF today [year_zero_page]) = 2026 \<and>
   now_month today = 11 \<and> now_year today = 2026 \<and>
   match_month_year (join_sp (map str (page_items year_zero_page))) = Some (''May'', ''0000'')"
  by (simp add: parseSchedulePDF_def finish_def process_page_def Let_def year_zero_page_header(2,3)
      year_zero_page_month detect_month_year_def init_state_def falsy_def or_else_def today_def)

text \<open>
  C7, as amended. On a page on which no line reaches the header threshold, the page is
  reduced to its month and year detection: the employee list and the set of shifts are
  left as they were. The detection itself still runs on the text of that page.
\<close>

theorem headerless_page_frame:
  assumes "pickBestDayHeaderLine (groupByLine (page_items raw)) = None"
  shows "process_page raw st = detect_month_year (join_sp (map str (page_items raw))) st \<and>
         st_employees (process_page raw st) = st_employees st \<and>
         st_shifts (process_page raw st) = st_shifts st"
  using assms by (simp add: process_page_def Let_def)

theorem headerless_page_frame_witness:
  "pickBestDayHeaderLine (groupByLine (page_items cover_page)) = None \<and>
   st_employees (process_page cover_page (process_page page_one init_state)) =
     st_employees (process_page page_one init_state) \<and>
   st_shifts (process_page cover_page (process_page page_one init_state)) =
     st_shifts (process_page page_one init_state)"
  using headerless_page_frame [OF cover_page_header(2), of "process_page page_one init_state"]
  by (simp add: cover_page_header(2))

text \<open>
  The claim as it was stated fails on the cover page: it has no header line, and
  processing it sets the detected month and year, which were not set before.
\<close>

theorem headerless_page_sets_month_counterexample:
  "pickBestDayHeaderLine (groupByLine (page_items cover_page)) = None \<and>
   detectedYear init_state = None \<and> detectedMonth init_state = None \<and>
   detectedYear (process_page cover_page init_state) = Some 2024 \<and>
   detectedMonth (process_page cover_page init_state) = Some 1"
  by (simp add: process_page_def Let_def cover_page_header(2,3) cover_page_month detect_month_year_def
      init_state_def falsy_def)

text \<open>
  C8. Every employee of the result has a shift that is in the result's set of shifts. The
  same holds of the accumulators after every page, and every run of the loop over the
  lines of a page keeps it: it holds at every point of the parse between two lines. (A
  row appends its employee and adds the shift in two consecutive statements; the parse is
  suspended between pages only, so one line is one step.)
\<close>

theorem employee_shift_in_shifts:
  "(\<forall>e\<in>set (employees (parseSchedulePDF now pages)).
      shift e \<in> set (shifts (parseSchedulePDF now pages))) \<and>
   (\<forall>n. \<forall>e\<in>set (st_employees (fold process_page (take n pages) init_state)).
      shift e \<in> set (st_shifts (fold process_page (take n pages) init_state))) \<and>
   ((\<forall>e\<in>set (st_employees st). shift e \<in> set (st_shifts st)) \<longrightarrow>
    (\<forall>e\<in>set (st_employees (fst (fold (process_line lines A m) ks (st, cs)))).
      shift e \<in> set (st_shifts (fst (fold (process_line lines A m) ks (st, cs))))))"
proof -
  have i: "\<forall>e\<in>set (st_employees init_state). shift e \<in> set (st_shifts init_state)"
    by (simp add: init_state_def)
  have 1: "\<forall>e\<in>set (employees (parseSchedulePDF now pages)).
      shift e \<in> set (shifts (parseSchedulePDF now pages))"
    using fold_pages_shift_inv [OF i, of pages] by (simp add: result_fields)
  have 2: "\<forall>n. \<forall>e\<in>set (st_employees (fold process_page (take n pages) init_state)).
      shift e \<in> set (st_shifts (fold process_page (take n pages) init_state))"
    using fold_pages_shift_inv [OF i] by blast
  have 3: "(\<forall>e\<in>set (st_employees st). shift e \<in> set (st_shifts st)) \<longrightarrow>
    (\<forall>e\<in>set (st_employees (fst (fold (process_line lines A m) ks (st, cs)))).
      shift e \<in> set (st_shifts (fst (fold (process_line lines A m) ks (st, cs)))))"
  proof
    assume a: "\<forall>e\<in>set (st_employees st). shift e \<in> set (st_shifts st)"
    from lines_fold_effect [of lines A m ks cs] obtain E S c' where
      "\<forall>st. fold (process_line lines A m) ks (st, cs) =
         (st\<lparr>st_employees := st_employees st @ E, st_shifts := fold set_add S (st_shifts st)\<rparr>, c')"
      "\<forall>e\<in>set E. shift e \<in> set S"
      by blast
    with a show "\<forall>e\<in>set (st_employees (fst (fold (process_line lines A m) ks (st, cs)))).
      shift e \<in> set (st_shifts (fst (fold (process_line lines A m) ks (st, cs))))"
      by auto
  qed
  from 1 2 3 show ?thesis by blast
qed

theorem employee_shift_in_shifts_witness:
  "map shift (employees (parseSchedulePDF today [page_one, page_two])) = [''B'', ''Unknown''] \<and>
   shifts (parseSchedulePDF today [page_one, page_two]) = [''B'', ''Unknown''] \<and>
   set (map shift (employees (parseSchedulePDF today [page_one, page_two]))) \<subseteq>
     set (shifts (parseSchedulePDF today [page_one, page_two]))"
  using employee_shift_in_shifts [of today "[page_one, page_two]"]
  by (simp add: sample_document)

text \<open>
  C9. In every employee of the result, every key of the codes is a day number from 1 to
  31, and every value is a normalized code: not empty, equal to its own upper-case form,
  of one of the two accepted shapes (one to six letters and up to three digits, or two to
  six letters), and not a bare number of one or two digits.
\<close>

theorem codes_well_formed:
  "\<forall>e\<in>set (employees (parseSchedulePDF now pages)). \<forall>d c. codes e d = Some c \<longrightarrow>
     1 \<le> d \<and> d \<le> 31 \<and> c \<noteq> [] \<and> toUpperCase c = c \<and>
     (code_pattern1 c \<or> code_pattern2 c) \<and> \<not> is_day_number c"
proof -
  have "\<forall>e\<in>set (st_employees init_state). \<forall>d c. codes e d = Some c \<longrightarrow>
      1 \<le> d \<and> d \<le> 31 \<and> (\<exists>s. normalizeCode s = Some c)"
    by (simp add: init_state_def)
  from fold_pages_codes_inv [OF this, of pages]
  have "\<forall>e\<in>set (employees (parseSchedulePDF now pages)). \<forall>d c. codes e d = Some c \<longrightarrow>
      1 \<le> d \<and> d \<le> 31 \<and> (\<exists>s. normalizeCode s = Some c)"
    by (simp add: result_fields)
  then show ?thesis using normalizeCode_Some by blast
qed

theorem codes_well_formed_witness:
  "codes (last (employees (parseSchedulePDF today [page_one, page_two]))) 2 = Some ''DM'' \<and>
   toUpperCase ''DM'' = ''DM'' \<and> (code_pattern1 ''DM'' \<or> code_pattern2 ''DM'') \<and>
   \<not> is_day_number ''DM''"
proof -
  let ?r = "parseSchedulePDF today [page_one, page_two]"
  have e: "last (employees ?r) \<in> set (employees ?r)"
    by (simp add: sample_document)
  have c: "codes (last (employees ?r)) 2 = Some ''DM''"
    by (simp add: sample_document)
  from codes_well_formed [of today "[page_one, page_two]"] e c show ?thesis
    by blast
qed

end
